theory Spec2Isabelle
  imports Complex_Main "HOL-Library.Multiset"
begin

section \<open>JavaScript values after \<^verbatim>\<open>JSON.parse\<close>\<close>

text \<open>
  The message handler works on whatever \<^verbatim>\<open>JSON.parse\<close> returns. A number is a double;
  the handlers only ask whether it is an integer, compare it with \<open>0\<close> and \<open>SIZE\<close>, sort
  it and test it for zero, so it is modelled by a rational (an overflowing literal such
  as \<^verbatim>\<open>1e999\<close> parses to \<^verbatim>\<open>Infinity\<close>, which behaves here like any non-integer).
  A string is its sequence of code units. An object is the list of its own properties.
\<close>

datatype json =
    JNull
  | JBool bool
  | JNum rat
  | JStr string
  | JArr "json list"
  | JObj "(string \<times> json) list"

text \<open>
  \<open>propOf v k\<close> is the property read \<^verbatim>\<open>v.k\<close> for a value \<open>v\<close> that is not \<^verbatim>\<open>null\<close>;
  \<open>None\<close> is \<^verbatim>\<open>undefined\<close>. Reading a property of \<^verbatim>\<open>null\<close> raises a TypeError:
  every caller below tests for \<open>JNull\<close> before it reads. The only inherited or built-in
  property the handlers read is \<^verbatim>\<open>length\<close> (of an array or a string).
\<close>

fun propOf :: "json \<Rightarrow> string \<Rightarrow> json option" where
  "propOf (JObj kvs) k = map_of kvs k"
| "propOf (JArr xs) k = (if k = ''length'' then Some (JNum (of_nat (length xs))) else None)"
| "propOf (JStr s) k = (if k = ''length'' then Some (JNum (of_nat (length s))) else None)"
| "propOf v k = None"

text \<open>Truthiness, as \<^verbatim>\<open>!v\<close> and \<^verbatim>\<open>v || w\<close> read it.\<close>

fun truthy :: "json option \<Rightarrow> bool" where
  "truthy None = False"
| "truthy (Some JNull) = False"
| "truthy (Some (JBool b)) = b"
| "truthy (Some (JNum q)) = (q \<noteq> 0)"
| "truthy (Some (JStr s)) = (s \<noteq> [])"
| "truthy (Some (JArr xs)) = True"
| "truthy (Some (JObj kvs)) = True"

text \<open>
  \<open>intOf v\<close> is \<open>Some i\<close> exactly when \<^verbatim>\<open>Number.isInteger(v)\<close> holds, and then \<open>i\<close> is
  the value of \<open>v\<close>.
\<close>

fun intOf :: "json option \<Rightarrow> int option" where
  "intOf (Some (JNum q)) = (if of_int \<lfloor>q\<rfloor> = q then Some \<lfloor>q\<rfloor> else None)"
| "intOf v = None"

section \<open>Grid and fleet\<close>

text \<open>Grid values of the source: 0 empty, 1 ship (hidden to opponent), 2 miss, 3 hit.\<close>

datatype cell = Empty | Ship | Miss | Hit

type_synonym grid = "cell list list"

text \<open>A cell position is the pair \<open>(x, y)\<close>; the grid is read as \<^verbatim>\<open>grid[y][x]\<close>.\<close>

type_synonym pos = "nat \<times> nat"

type_synonym fleet = "pos list list"

definition SIZE :: nat where
  "SIZE = 10"

definition SHIP_SIZES :: "nat list" where
  "SHIP_SIZES = [5, 4, 3, 3, 2]"

definition otherIndex :: "nat \<Rightarrow> nat" where
  "otherIndex i = (if i = 0 then 1 else 0)"

definition emptyGrid :: grid where
  "emptyGrid = replicate SIZE (replicate SIZE Empty)"

text \<open>The write \<^verbatim>\<open>grid[y][x] = v\<close>, for a position inside the grid.\<close>

definition setCell :: "grid \<Rightarrow> nat \<Rightarrow> nat \<Rightarrow> cell \<Rightarrow> grid" where
  "setCell g x y v = g[y := (g ! y)[x := v]]"

text \<open>
  The read \<^verbatim>\<open>grid[y][x]\<close>: \<open>None\<close> when the position is outside the grid (where
  JavaScript raises for a missing row and yields \<^verbatim>\<open>undefined\<close> for a missing column).
\<close>

definition cellAt :: "grid \<Rightarrow> nat \<Rightarrow> nat \<Rightarrow> cell option" where
  "cellAt g x y = (if y < length g \<and> x < length (g ! y) then Some (g ! y ! x) else None)"

section \<open>The placement validator\<close>

text \<open>
  A call of \<^verbatim>\<open>validatePlacement\<close> raises a TypeError, returns \<^verbatim>\<open>{ ok: false, err }\<close> or
  returns \<^verbatim>\<open>{ ok: true, grid, ships }\<close>.
\<close>

datatype 'a vres = Throw | Reject string | Accept 'a

text \<open>\<^verbatim>\<open>s.cells?.length\<close> for a ship \<open>s\<close> that is not \<^verbatim>\<open>null\<close>.\<close>

definition cellsLength :: "json \<Rightarrow> json option" where
  "cellsLength s =
     (case propOf s ''cells'' of
        None \<Rightarrow> None
      | Some JNull \<Rightarrow> None
      | Some cells \<Rightarrow> propOf cells ''length'')"

text \<open>
  The values of a list when every one of them is a number, \<open>None\<close> otherwise.
  \<^verbatim>\<open>sizes.sort((a,b)=>a-b)\<close> permutes \<open>sizes\<close>; when an entry is not a number, that
  entry stands at some index of the sorted array and is \<^verbatim>\<open>!==\<close> to the number expected
  there, so the comparison loop answers "Wrong ship sizes" whatever order the sort
  produced. When all entries are numbers the sort is the numeric one.
\<close>

fun numbers :: "json option list \<Rightarrow> rat list option" where
  "numbers [] = Some []"
| "numbers (Some (JNum q) # vs) = map_option ((#) q) (numbers vs)"
| "numbers (v # vs) = None"

text \<open>The loop \<^verbatim>\<open>for (let i=1;i<xs.length;i++) if (xs[i] !== xs[i-1] + 1) return ...\<close>.\<close>

fun contiguous :: "nat list \<Rightarrow> bool" where
  "contiguous (a # b # rest) = (b = a + 1 \<and> contiguous (b # rest))"
| "contiguous xs = True"

text \<open>
  The loop over the cells of one ship, against the grid \<open>g\<close> that holds the ships placed
  before it. It returns the positions of the cells.
\<close>

fun checkCells :: "grid \<Rightarrow> json list \<Rightarrow> pos list vres" where
  "checkCells g [] = Accept []"
| "checkCells g (c # cs) =
     (if c = JNull then Throw
      else case intOf (propOf c ''x'') of
        None \<Rightarrow> Reject ''Invalid coords''
      | Some x \<Rightarrow>
         (case intOf (propOf c ''y'') of
            None \<Rightarrow> Reject ''Invalid coords''
          | Some y \<Rightarrow>
             if x < 0 \<or> x \<ge> int SIZE \<or> y < 0 \<or> y \<ge> int SIZE then Reject ''Out of bounds''
             else if g ! nat y ! nat x = Ship then Reject ''Overlapping ships''
             else (case checkCells g cs of
                     Accept ps \<Rightarrow> Accept ((nat x, nat y) # ps)
                   | Reject e \<Rightarrow> Reject e
                   | Throw \<Rightarrow> Throw)))"

text \<open>\<^verbatim>\<open>for (const x of xs) grid[y][x] = 1\<close> and \<^verbatim>\<open>for (const y of ys) grid[y][x] = 1\<close>.\<close>

definition writeRow :: "grid \<Rightarrow> nat \<Rightarrow> nat list \<Rightarrow> grid" where
  "writeRow g y xs = fold (\<lambda>x h. setCell h x y Ship) xs g"

definition writeCol :: "grid \<Rightarrow> nat \<Rightarrow> nat list \<Rightarrow> grid" where
  "writeCol g x ys = fold (\<lambda>y h. setCell h x y Ship) ys g"

text \<open>
  The straight line check. \<open>length (remdups zs)\<close> is the size of \<^verbatim>\<open>new Set(zs)\<close>.
\<close>

definition isHoriz :: "pos list \<Rightarrow> bool" where
  "isHoriz cs = (length (remdups (map snd cs)) = 1 \<and> length (remdups (map fst cs)) = length cs)"

definition isVert :: "pos list \<Rightarrow> bool" where
  "isVert cs = (length (remdups (map fst cs)) = 1 \<and> length (remdups (map snd cs)) = length cs)"

text \<open>
  The body of the loop \<^verbatim>\<open>for (const ship of ships)\<close>: the checks of one ship against
  the grid \<open>g\<close> of the ships before it, then the writes of its cells. \<open>cs ! 0\<close> is
  \<^verbatim>\<open>cells[0]\<close>, read after the length test.
\<close>

definition placeShip :: "grid \<Rightarrow> json \<Rightarrow> (grid \<times> pos list) vres" where
  "placeShip g ship =
     (if ship = JNull then Throw
      else case propOf ship ''cells'' of
        Some (JArr cells) \<Rightarrow>
          if length cells < 2 then Reject ''Invalid ship cells''
          else (case checkCells g cells of
             Throw \<Rightarrow> Throw
           | Reject e \<Rightarrow> Reject e
           | Accept cs \<Rightarrow>
               if \<not> isHoriz cs \<and> \<not> isVert cs then Reject ''Ship must be straight''
               else if isHoriz cs then
                 (let y = snd (cs ! 0); xs = sort (map fst cs)
                  in if \<not> contiguous xs then Reject ''Ship cells must be contiguous''
                     else Accept (writeRow g y xs, cs))
               else
                 (let x = fst (cs ! 0); ys = sort (map snd cs)
                  in if \<not> contiguous ys then Reject ''Ship cells must be contiguous''
                     else Accept (writeCol g x ys, cs)))
      | _ \<Rightarrow> Reject ''Invalid ship cells'')"

text \<open>The loop itself: it stops at the first ship that is refused or raises.\<close>

fun placeShips :: "grid \<Rightarrow> json list \<Rightarrow> (grid \<times> fleet) vres" where
  "placeShips g [] = Accept (g, [])"
| "placeShips g (ship # rest) =
     (case placeShip g ship of
        Throw \<Rightarrow> Throw
      | Reject e \<Rightarrow> Reject e
      | Accept (g1, cs) \<Rightarrow>
         (case placeShips g1 rest of
            Throw \<Rightarrow> Throw
          | Reject e \<Rightarrow> Reject e
          | Accept (g', ss) \<Rightarrow> Accept (g', cs # ss)))"

text \<open>
  \<^verbatim>\<open>validatePlacement(placement)\<close>; the argument is \<^verbatim>\<open>msg.placement\<close>, \<open>None\<close> when the
  message has no such property. \<^verbatim>\<open>ships.map(s => s.cells?.length)\<close> raises when an
  entry of \<open>ships\<close> is \<^verbatim>\<open>null\<close>. The accepted fleet keeps, of every submitted ship, the
  positions of its cells: nothing else of \<^verbatim>\<open>ships\<close> is read afterwards.
\<close>

definition validatePlacement :: "json option \<Rightarrow> (grid \<times> fleet) vres" where
  "validatePlacement placement =
     (if \<not> truthy placement then Reject ''Bad placement format''
      else case placement of
        None \<Rightarrow> Reject ''Bad placement format''
      | Some p \<Rightarrow>
         (case propOf p ''ships'' of
            Some (JArr ships) \<Rightarrow>
              if JNull \<in> set ships then Throw
              else (let sizes = map cellsLength ships;
                        expected = sort SHIP_SIZES
                    in if length sizes \<noteq> length expected then Reject ''Wrong ship count''
                       else (case numbers sizes of
                          None \<Rightarrow> Reject ''Wrong ship sizes''
                        | Some qs \<Rightarrow>
                            if sort qs \<noteq> map of_nat expected then Reject ''Wrong ship sizes''
                            else placeShips emptyGrid ships))
          | _ \<Rightarrow> Reject ''Bad placement format''))"

section \<open>Rooms\<close>

text \<open>A connection is identified by its socket object \<^verbatim>\<open>ws\<close>; the model numbers them.\<close>

type_synonym conn = nat

text \<open>
  \<^verbatim>\<open>{ ws, id, ready, grid, ships }\<close>, the field \<^verbatim>\<open>id\<close> written \<open>id'\<close>; \<open>grid\<close> and
  \<open>ships\<close> are \<^verbatim>\<open>null\<close> (\<open>None\<close>) until a placement is accepted.
\<close>

record player =
  ws :: conn
  id' :: string
  ready :: bool
  grid :: "grid option"
  ships :: "fleet option"

record room =
  players :: "player list"
  turn :: nat
  started :: bool

text \<open>
  \<^verbatim>\<open>const rooms = new Map()\<close>: the entries in insertion order, which is the order
  \<^verbatim>\<open>rooms.entries()\<close> iterates in. \<open>roomsSet\<close> is \<^verbatim>\<open>rooms.set\<close> (a key that is present
  keeps its place) and \<open>map_of\<close> is \<^verbatim>\<open>rooms.get\<close>. The keys of a map are distinct. A
  handler changes the room object it has looked up; the model writes the changed room
  back under its token.
\<close>

type_synonym store = "(string \<times> room) list"

fun roomsSet :: "string \<Rightarrow> room \<Rightarrow> store \<Rightarrow> store" where
  "roomsSet k v [] = [(k, v)]"
| "roomsSet k v ((k', v') # rest) =
     (if k' = k then (k, v) # rest else (k', v') # roomsSet k v rest)"

text \<open>\<^verbatim>\<open>findIndex\<close>; \<open>None\<close> is the result \<open>-1\<close>.\<close>

fun findIndex :: "('a \<Rightarrow> bool) \<Rightarrow> 'a list \<Rightarrow> nat option" where
  "findIndex P [] = None"
| "findIndex P (a # as) = (if P a then Some 0 else map_option Suc (findIndex P as))"

text \<open>
  The loop "Find room/player if already joined": the first room, in the order of the
  map, that holds the connection, with the first index it holds there.
\<close>

fun findRoom :: "conn \<Rightarrow> store \<Rightarrow> (string \<times> room \<times> nat) option" where
  "findRoom c [] = None"
| "findRoom c ((rid, r) # rest) =
     (case findIndex (\<lambda>p. ws p = c) (players r) of
        Some idx \<Rightarrow> Some (rid, r, idx)
      | None \<Rightarrow> findRoom c rest)"

section \<open>Messages\<close>

text \<open>
  The objects handed to \<^verbatim>\<open>safeSend\<close>. \<open>StatusBothConnected\<close>, \<open>StatusReady n\<close> and
  \<open>StatusOpponentLeft\<close> are the \<^verbatim>\<open>status\<close> messages "Both players connected. Place ships
  and press READY.", "Player n is READY." and "Opponent disconnected.". The fields of
  \<open>ShotResult\<close> are \<^verbatim>\<open>x, y, hit, sunk, sunkSize, win\<close>, those of \<open>GotShot\<close> are
  \<^verbatim>\<open>x, y, hit, sunk, sunkSize, lose\<close>.
\<close>

datatype outmsg =
    Error string
  | Hello
  | RoomCreated string nat
  | PlayerJoined nat
  | RoomJoined string nat
  | StatusBothConnected
  | StatusReady nat
  | StatusOpponentLeft
  | ReadyOk
  | GameStart nat
  | ShotResult nat nat bool bool "nat option" bool
  | GotShot nat nat bool bool "nat option" bool
  | GameOver nat
  | Turn nat

type_synonym sends = "(conn \<times> outmsg) list"

text \<open>
  A handler lists its calls of \<^verbatim>\<open>safeSend\<close> in order. \<^verbatim>\<open>safeSend\<close> writes to the socket
  only when its \<^verbatim>\<open>readyState\<close> is \<^verbatim>\<open>OPEN\<close>; the state of the sockets belongs to the
  transport and does not change while a handler runs, so what reaches the wire is
  \<open>transmitted isOpen out\<close>.
\<close>

definition transmitted :: "(conn \<Rightarrow> bool) \<Rightarrow> sends \<Rightarrow> sends" where
  "transmitted isOpen out = filter (\<lambda>(c, m). isOpen c) out"

definition broadcast :: "room \<Rightarrow> outmsg \<Rightarrow> sends" where
  "broadcast r m = map (\<lambda>p. (ws p, m)) (players r)"

text \<open>A handler returns or raises a TypeError that nothing catches.\<close>

datatype outcome = Returned | TypeError

type_synonym result = "outcome \<times> store \<times> sends"

text \<open>
  What a run of the message handler takes from outside the state: the token
  \<^verbatim>\<open>makeRoomId()\<close> would return, the \<^verbatim>\<open>clientId\<close> of each connection, and the string
  function \<^verbatim>\<open>v => String(v).trim().toUpperCase()\<close>.
\<close>

record env =
  makeRoomId :: string
  clientIdOf :: "conn \<Rightarrow> string"
  upperTrim :: "json \<Rightarrow> string"

definition newPlayer :: "env \<Rightarrow> conn \<Rightarrow> player" where
  "newPlayer E c = \<lparr>ws = c, id' = clientIdOf E c, ready = False, grid = None, ships = None\<rparr>"

section \<open>The message handler\<close>

definition createRoom :: "env \<Rightarrow> conn \<Rightarrow> store \<Rightarrow> result" where
  "createRoom E c rooms =
     (let roomId = makeRoomId E
      in (Returned,
          roomsSet roomId \<lparr>players = [newPlayer E c], turn = 0, started = False\<rparr> rooms,
          [(c, RoomCreated roomId 1)]))"

text \<open>
  \<^verbatim>\<open>String(msg.roomId || "").trim().toUpperCase()\<close>: the empty string when
  \<^verbatim>\<open>msg.roomId\<close> is falsy.
\<close>

definition roomIdOf :: "env \<Rightarrow> json \<Rightarrow> string" where
  "roomIdOf E msg =
     (case propOf msg ''roomId'' of
        None \<Rightarrow> []
      | Some v \<Rightarrow> if truthy (Some v) then upperTrim E v else [])"

text \<open>
  After the push, \<^verbatim>\<open>r.players[1]\<close> is read: it is \<^verbatim>\<open>undefined\<close>, and \<^verbatim>\<open>.ws\<close> raises,
  when the room had no player.
\<close>

definition joinRoom :: "env \<Rightarrow> conn \<Rightarrow> json \<Rightarrow> store \<Rightarrow> result" where
  "joinRoom E c msg rooms =
     (let roomId = roomIdOf E msg
      in case map_of rooms roomId of
        None \<Rightarrow> (Returned, rooms, [(c, Error ''Room not found'')])
      | Some r \<Rightarrow>
          if length (players r) \<ge> 2 then (Returned, rooms, [(c, Error ''Room full'')])
          else (let r' = r\<lparr>players := players r @ [newPlayer E c]\<rparr>;
                    rooms' = roomsSet roomId r' rooms;
                    out = [(ws (players r' ! 0), PlayerJoined 2)]
                in if length (players r') < 2 then (TypeError, rooms', out)
                   else (Returned, rooms',
                         out @ [(ws (players r' ! 1), RoomJoined roomId 2)]
                             @ broadcast r' StatusBothConnected)))"

definition placeReady :: "conn \<Rightarrow> json \<Rightarrow> (string \<times> room \<times> nat) option \<Rightarrow> store \<Rightarrow> result" where
  "placeReady c msg found rooms =
     (case found of
        None \<Rightarrow> (Returned, rooms, [(c, Error ''Not in a room'')])
      | Some (rid, room, pIndex) \<Rightarrow>
          if length (players room) < 2 then (Returned, rooms, [(c, Error ''Waiting for opponent'')])
          else (case validatePlacement (propOf msg ''placement'') of
             Throw \<Rightarrow> (TypeError, rooms, [])
           | Reject e \<Rightarrow> (Returned, rooms, [(c, Error (''Placement invalid: '' @ e))])
           | Accept (g, ss) \<Rightarrow>
              (let ps = (players room)[pIndex :=
                          (players room ! pIndex)\<lparr>ready := True, grid := Some g, ships := Some ss\<rparr>];
                   room1 = room\<lparr>players := ps\<rparr>;
                   out = (c, ReadyOk) # broadcast room1 (StatusReady (pIndex + 1))
               in if ready (ps ! 0) \<and> ready (ps ! 1) \<and> \<not> started room1 then
                    (let room2 = room1\<lparr>started := True, turn := 0\<rparr>
                     in (Returned, roomsSet rid room2 rooms,
                         out @ broadcast room2 (GameStart (turn room2 + 1))))
                  else (Returned, roomsSet rid room1 rooms, out))))"

text \<open>\<^verbatim>\<open>shipCells.every(c => grid[c.y][c.x] === 3)\<close>\<close>

definition computeSunk :: "grid \<Rightarrow> pos list \<Rightarrow> bool" where
  "computeSunk g shipCells = list_all (\<lambda>(x, y). cellAt g x y = Some Hit) shipCells"

definition allShipsSunk :: "grid \<Rightarrow> fleet \<Rightarrow> bool" where
  "allShipsSunk g ss = list_all (\<lambda>s. computeSunk g s) ss"

text \<open>
  The block "find if sunk": the first ship that has the cell \<open>(x, y)\<close> decides \<open>sunk\<close>
  and \<open>sunkSize\<close>.
\<close>

definition findSunk :: "grid \<Rightarrow> fleet \<Rightarrow> nat \<Rightarrow> nat \<Rightarrow> bool \<times> nat option" where
  "findSunk g ss x y =
     (case find (\<lambda>s. (x, y) \<in> set s) ss of
        None \<Rightarrow> (False, None)
      | Some s \<Rightarrow> if computeSunk g s then (True, Some (length s)) else (False, None))"

text \<open>
  The test of \<^verbatim>\<open>msg.x\<close> and \<^verbatim>\<open>msg.y\<close> in the case \<^verbatim>\<open>"shot"\<close>: the position when both
  are integers inside the grid, \<open>None\<close> when the handler answers "Invalid shot coords".
\<close>

definition shotCoords :: "json \<Rightarrow> pos option" where
  "shotCoords msg =
     (case intOf (propOf msg ''x'') of
        None \<Rightarrow> None
      | Some xi \<Rightarrow>
         (case intOf (propOf msg ''y'') of
            None \<Rightarrow> None
          | Some yi \<Rightarrow>
              if xi < 0 \<or> xi \<ge> int SIZE \<or> yi < 0 \<or> yi \<ge> int SIZE then None
              else Some (nat xi, nat yi)))"

text \<open>
  The case \<^verbatim>\<open>"shot"\<close> from the write to the grid on: the defender stands at index \<open>d\<close>
  with the grid \<open>g\<close>, in which the cell \<open>(x, y)\<close> holds \<open>cell\<close>, neither \<open>Miss\<close> nor
  \<open>Hit\<close>. The loops over \<^verbatim>\<open>defender.ships\<close> raise, after the write, when the defender
  has no fleet.
\<close>

definition resolveShot ::
  "string \<Rightarrow> room \<Rightarrow> nat \<Rightarrow> nat \<Rightarrow> grid \<Rightarrow> cell \<Rightarrow> nat \<Rightarrow> nat \<Rightarrow> store \<Rightarrow> result" where
  "resolveShot rid room pIndex d g cell x y rooms =
     (let defender = players room ! d;
          attacker = players room ! pIndex;
          hit = (cell = Ship);
          g' = setCell g x y (if hit then Hit else Miss);
          room1 = room\<lparr>players := (players room)[d := defender\<lparr>grid := Some g'\<rparr>]\<rparr>
      in case ships defender of
           None \<Rightarrow> (TypeError, roomsSet rid room1 rooms, [])
         | Some ss \<Rightarrow>
            (let sunkInfo = (if hit then findSunk g' ss x y else (False, None));
                 win = allShipsSunk g' ss;
                 out = [(ws attacker, ShotResult x y hit (fst sunkInfo) (snd sunkInfo) win),
                        (ws defender, GotShot x y hit (fst sunkInfo) (snd sunkInfo) win)]
             in if win then
                  (Returned, roomsSet rid room1 rooms, out @ broadcast room1 (GameOver (pIndex + 1)))
                else
                  (let room2 = (if hit then room1 else room1\<lparr>turn := otherIndex (turn room1)\<rparr>)
                   in (Returned, roomsSet rid room2 rooms,
                       out @ broadcast room2 (Turn (turn room2 + 1))))))"

text \<open>
  The case \<^verbatim>\<open>"shot"\<close>. \<^verbatim>\<open>defender.grid\<close> raises when the room has no player at
  \<open>otherIndex pIndex\<close>, and \<^verbatim>\<open>defender.grid[y]\<close> raises when the defender has no grid.
  Every grid is \<open>SIZE\<close> by \<open>SIZE\<close> and \<open>x\<close>, \<open>y\<close> are tested first, so the read
  \<^verbatim>\<open>defender.grid[y][x]\<close> is inside the grid; the model raises where it is not.
\<close>

definition shot :: "conn \<Rightarrow> json \<Rightarrow> (string \<times> room \<times> nat) option \<Rightarrow> store \<Rightarrow> result" where
  "shot c msg found rooms =
     (case found of
        None \<Rightarrow> (Returned, rooms, [(c, Error ''Game not started'')])
      | Some (rid, room, pIndex) \<Rightarrow>
          if \<not> started room then (Returned, rooms, [(c, Error ''Game not started'')])
          else if pIndex \<noteq> turn room then (Returned, rooms, [(c, Error ''Not your turn'')])
          else (case shotCoords msg of
             None \<Rightarrow> (Returned, rooms, [(c, Error ''Invalid shot coords'')])
           | Some (x, y) \<Rightarrow>
              (let d = otherIndex pIndex
               in if d \<ge> length (players room) then (TypeError, rooms, [])
                  else (case grid (players room ! d) of
                     None \<Rightarrow> (TypeError, rooms, [])
                   | Some g \<Rightarrow>
                      (case cellAt g x y of
                         None \<Rightarrow> (TypeError, rooms, [])
                       | Some cell \<Rightarrow>
                          if cell = Miss \<or> cell = Hit
                          then (Returned, rooms, [(c, Error ''Already shot there'')])
                          else resolveShot rid room pIndex d g cell x y rooms)))))"

text \<open>
  \<^verbatim>\<open>ws.on("message", ...)\<close>. \<open>raw\<close> is the value \<^verbatim>\<open>JSON.parse\<close> returned, \<open>None\<close> when
  it raised. \<^verbatim>\<open>msg.type\<close> raises when the message is \<^verbatim>\<open>null\<close>. The \<^verbatim>\<open>switch\<close> compares
  with \<^verbatim>\<open>===\<close>, so only a string selects a case.
\<close>

definition onMessage :: "env \<Rightarrow> conn \<Rightarrow> json option \<Rightarrow> store \<Rightarrow> result" where
  "onMessage E c raw rooms =
     (case raw of
        None \<Rightarrow> (Returned, rooms, [(c, Error ''Invalid JSON'')])
      | Some msg \<Rightarrow>
          if msg = JNull then (TypeError, rooms, [])
          else if \<not> truthy (propOf msg ''type'') then (Returned, rooms, [])
          else (let found = findRoom c rooms; t = propOf msg ''type''
                in if t = Some (JStr ''create_room'') then createRoom E c rooms
                   else if t = Some (JStr ''join_room'') then joinRoom E c msg rooms
                   else if t = Some (JStr ''place_ready'') then placeReady c msg found rooms
                   else if t = Some (JStr ''shot'') then shot c msg found rooms
                   else (Returned, rooms, [(c, Error ''Unknown message type'')])))"

section \<open>The close handler and the life of the server\<close>

text \<open>
  \<^verbatim>\<open>ws.on("close", ...)\<close>: the connection leaves the first room that holds it
  (\<^verbatim>\<open>splice(idx, 1)\<close>); when the room is empty its entry, the one the loop is at, is
  deleted, otherwise the players left are told.
\<close>

fun onClose :: "conn \<Rightarrow> store \<Rightarrow> store \<times> sends" where
  "onClose c [] = ([], [])"
| "onClose c ((rid, r) # rest) =
     (case findIndex (\<lambda>p. ws p = c) (players r) of
        Some idx \<Rightarrow>
          (let r' = r\<lparr>players := take idx (players r) @ drop (Suc idx) (players r)\<rparr>
           in if players r' = [] then (rest, [])
              else ((rid, r') # rest, broadcast r' StatusOpponentLeft))
      | None \<Rightarrow> (case onClose c rest of (rest', out) \<Rightarrow> ((rid, r) # rest', out)))"

text \<open>
  What happens to the server: a connection opens (and is greeted), a message arrives
  on a connection, a connection closes. A run starts from the empty map and stops at
  the first handler that raises.
\<close>

datatype event = Opened conn | Message env conn "json option" | Closed conn

fun step :: "event \<Rightarrow> store \<Rightarrow> result" where
  "step (Opened c) rooms = (Returned, rooms, [(c, Hello)])"
| "step (Message E c raw) rooms = onMessage E c raw rooms"
| "step (Closed c) rooms = (case onClose c rooms of (rooms', out) \<Rightarrow> (Returned, rooms', out))"

fun run :: "event list \<Rightarrow> store \<Rightarrow> result" where
  "run [] rooms = (Returned, rooms, [])"
| "run (e # es) rooms =
     (case step e rooms of
        (TypeError, rooms', out) \<Rightarrow> (TypeError, rooms', out)
      | (Returned, rooms', out) \<Rightarrow>
          (case run es rooms' of (oc, rooms'', out') \<Rightarrow> (oc, rooms'', out @ out')))"

section \<open>Notions used in the statements\<close>

text \<open>A grid of \<open>SIZE\<close> rows of \<open>SIZE\<close> cells, as \<^verbatim>\<open>emptyGrid()\<close> makes them.\<close>

definition gridOK :: "grid \<Rightarrow> bool" where
  "gridOK g = (length g = SIZE \<and> list_all (\<lambda>row. length row = SIZE) g)"

text \<open>The grid after the writes of one accepted ship, in the branch the validator takes.\<close>

definition written :: "grid \<Rightarrow> pos list \<Rightarrow> grid" where
  "written g cs =
     (if isHoriz cs then writeRow g (snd (cs ! 0)) (sort (map fst cs))
      else writeCol g (fst (cs ! 0)) (sort (map snd cs)))"

text \<open>
  The store entry a handler writes when it accepts a \<^verbatim>\<open>place_ready\<close>: the slot
  \<open>pIndex\<close> is ready with the grid and the fleet, and the game starts when both slots
  are ready and it had not started.
\<close>

definition placedRoom :: "room \<Rightarrow> nat \<Rightarrow> grid \<Rightarrow> fleet \<Rightarrow> room" where
  "placedRoom room pIndex g ss =
     (let ps = (players room)[pIndex :=
                 (players room ! pIndex)\<lparr>ready := True, grid := Some g, ships := Some ss\<rparr>];
          room1 = room\<lparr>players := ps\<rparr>
      in if ready (ps ! 0) \<and> ready (ps ! 1) \<and> \<not> started room1
         then room1\<lparr>started := True, turn := 0\<rparr> else room1)"

text \<open>
  The defender's grid after an accepted shot at \<open>(x, y)\<close>, where the cell held \<open>cell\<close>,
  and the store entry the handler writes: the grid of the slot \<open>d\<close> is replaced, and the
  turn passes on a miss that does not end the game.
\<close>

definition shotGrid :: "grid \<Rightarrow> cell \<Rightarrow> nat \<Rightarrow> nat \<Rightarrow> grid" where
  "shotGrid g cell x y = setCell g x y (if cell = Ship then Hit else Miss)"

definition shotRoom :: "room \<Rightarrow> nat \<Rightarrow> grid \<Rightarrow> cell \<Rightarrow> nat \<Rightarrow> nat \<Rightarrow> room" where
  "shotRoom room d g cell x y =
     (let room1 = room\<lparr>players := (players room)[d := (players room ! d)\<lparr>grid := Some (shotGrid g cell x y)\<rparr>]\<rparr>
      in case ships (players room ! d) of
           None \<Rightarrow> room1
         | Some ss \<Rightarrow>
             if allShipsSunk (shotGrid g cell x y) ss \<or> cell = Ship then room1
             else room1\<lparr>turn := otherIndex (turn room1)\<rparr>)"

text \<open>
  \<open>isShotMsg\<close>: the two messages that report a resolved shot. \<open>isSuccess\<close>: the
  answers that tell the sender its request was carried out (\<^verbatim>\<open>room_created\<close>,
  \<^verbatim>\<open>room_joined\<close>, \<^verbatim>\<open>ready_ok\<close>, \<^verbatim>\<open>shot_result\<close>); a message is accepted when the
  handler sends one of them and rejected otherwise. \<open>typeless\<close>: the message parsed
  and its \<^verbatim>\<open>type\<close> is absent or falsy.
\<close>

definition isShotMsg :: "outmsg \<Rightarrow> bool" where
  "isShotMsg m = (case m of ShotResult x y h s z w \<Rightarrow> True | GotShot x y h s z w \<Rightarrow> True | _ \<Rightarrow> False)"

definition isSuccess :: "outmsg \<Rightarrow> bool" where
  "isSuccess m = (case m of RoomCreated r n \<Rightarrow> True | RoomJoined r n \<Rightarrow> True | ReadyOk \<Rightarrow> True
                  | ShotResult x y h s z w \<Rightarrow> True | _ \<Rightarrow> False)"

definition accepted :: "sends \<Rightarrow> bool" where
  "accepted out = list_ex (\<lambda>(c, m). isSuccess m) out"

definition typeless :: "json option \<Rightarrow> bool" where
  "typeless raw = (case raw of None \<Rightarrow> False | Some msg \<Rightarrow> \<not> truthy (propOf msg ''type''))"

text \<open>
  A streak of hits on the room \<open>rid\<close>: every message of the list comes from a
  connection whose room is \<open>rid\<close> and is answered with a \<^verbatim>\<open>shot_result\<close> whose \<open>hit\<close>
  is true. \<open>hitStreak\<close> returns the store after the streak, \<open>None\<close> when a message
  is not such a hit. \<open>turnOf\<close> is the turn of a room of the store.
\<close>

definition isHit :: "conn \<times> outmsg \<Rightarrow> bool" where
  "isHit am = (case snd am of ShotResult x y hit sunk sz win \<Rightarrow> hit | _ \<Rightarrow> False)"

fun hitStreak :: "string \<Rightarrow> (env \<times> conn \<times> json option) list \<Rightarrow> store \<Rightarrow> store option" where
  "hitStreak rid [] rooms = Some rooms"
| "hitStreak rid ((E, c, raw) # ms) rooms =
     (case findRoom c rooms of
        None \<Rightarrow> None
      | Some (rid', room, pIndex) \<Rightarrow>
          if rid' \<noteq> rid then None
          else (case onMessage E c raw rooms of
                  (oc, rooms', out) \<Rightarrow> if list_ex isHit out then hitStreak rid ms rooms' else None))"

definition turnOf :: "string \<Rightarrow> store \<Rightarrow> nat option" where
  "turnOf rid rooms = map_option turn (map_of rooms rid)"

text \<open>
  One step of a cell: it keeps its value, or goes from \<open>Ship\<close> to \<open>Hit\<close>, or from
  \<open>Empty\<close> to \<open>Miss\<close>.
\<close>

definition cellStep :: "cell option \<Rightarrow> cell option \<Rightarrow> bool" where
  "cellStep a b = (b = a \<or> (a = Some Ship \<and> b = Some Hit) \<or> (a = Some Empty \<and> b = Some Miss))"

text \<open>
  What every store reached by a run satisfies: the tokens are distinct, no room is
  empty, and a slot has a fleet exactly when it has a grid, which is then \<open>SIZE\<close> by
  \<open>SIZE\<close>.
\<close>

definition slotOK :: "player \<Rightarrow> bool" where
  "slotOK p = (case grid p of None \<Rightarrow> ships p = None | Some g \<Rightarrow> gridOK g \<and> ships p \<noteq> None)"

definition roomOK :: "room \<Rightarrow> bool" where
  "roomOK r = (players r \<noteq> [] \<and> list_all slotOK (players r))"

definition storeOK :: "store \<Rightarrow> bool" where
  "storeOK rooms = (distinct (map fst rooms) \<and> list_all (\<lambda>kr. roomOK (snd kr)) rooms)"

text \<open>
  The slots a connection occupies: the pairs of a room token and an index of
  \<^verbatim>\<open>players\<close> whose \<^verbatim>\<open>ws\<close> is the connection.
\<close>

definition slotsOf :: "conn \<Rightarrow> store \<Rightarrow> (string \<times> nat) list" where
  "slotsOf c rooms =
     concat (map (\<lambda>(rid, r). map (\<lambda>i. (rid, i))
                    (filter (\<lambda>i. ws (players r ! i) = c) [0..<length (players r)])) rooms)"

section \<open>The placement rules in the words of the specification\<close>

text \<open>
  The definitions of this section follow the specification, not the code: a placement
  is a list of ships, each with a list of coordinates; every coordinate is a pair of
  integers within 0..9; the multiset of the ships' sizes is {5,4,3,3,2}; no two ships
  occupy the same cell; the cells of a ship lie on a single row or a single column and,
  sorted along the varying axis, go up in steps of 1.
\<close>

text \<open>\<open>collect f xs\<close> is the list of the \<open>f x\<close> when every one of them is defined.\<close>

fun collect :: "('a \<Rightarrow> 'b option) \<Rightarrow> 'a list \<Rightarrow> 'b list option" where
  "collect f [] = Some []"
| "collect f (x # xs) = (case f x of None \<Rightarrow> None | Some y \<Rightarrow> map_option ((#) y) (collect f xs))"

text \<open>A coordinate: an integer pair within \<open>[0,9] \<times> [0,9]\<close>.\<close>

definition spec_coord :: "json \<Rightarrow> pos option" where
  "spec_coord c =
     (case intOf (propOf c ''x'') of
        None \<Rightarrow> None
      | Some x \<Rightarrow>
        (case intOf (propOf c ''y'') of
           None \<Rightarrow> None
         | Some y \<Rightarrow> if 0 \<le> x \<and> x \<le> 9 \<and> 0 \<le> y \<and> y \<le> 9 then Some (nat x, nat y) else None))"

text \<open>A ship with a coordinate list, and a list of such ships.\<close>

definition spec_ship :: "json \<Rightarrow> pos list option" where
  "spec_ship s = (case propOf s ''cells'' of Some (JArr cells) \<Rightarrow> collect spec_coord cells | _ \<Rightarrow> None)"

definition spec_fleet :: "json option \<Rightarrow> fleet option" where
  "spec_fleet p =
     (case p of
        None \<Rightarrow> None
      | Some v \<Rightarrow> (case propOf v ''ships'' of Some (JArr shs) \<Rightarrow> collect spec_ship shs | _ \<Rightarrow> None))"

text \<open>A step of exactly 1 between neighbours.\<close>

definition spec_step1 :: "nat list \<Rightarrow> bool" where
  "spec_step1 zs = list_all (\<lambda>i. zs ! Suc i = zs ! i + 1) [0..<length zs - 1]"

text \<open>A single row or a single column, contiguous when sorted along the varying axis.\<close>

definition spec_straight :: "pos list \<Rightarrow> bool" where
  "spec_straight s =
     ((card (snd ` set s) = 1 \<and> spec_step1 (sort (map fst s))) \<or>
      (card (fst ` set s) = 1 \<and> spec_step1 (sort (map snd s))))"

text \<open>No two ships occupy the same cell.\<close>

fun spec_disjoint :: "fleet \<Rightarrow> bool" where
  "spec_disjoint [] = True"
| "spec_disjoint (s # ss) = (list_all (\<lambda>t. set s \<inter> set t = {}) ss \<and> spec_disjoint ss)"


section \<open>Concrete inputs\<close>

text \<open>The JSON of a cell, a ship and a placement, and the messages of the protocol.\<close>

definition mkCell :: "int \<Rightarrow> int \<Rightarrow> json" where
  "mkCell x y = JObj [(''x'', JNum (of_int x)), (''y'', JNum (of_int y))]"

definition mkShip :: "(int \<times> int) list \<Rightarrow> json" where
  "mkShip cs = JObj [(''cells'', JArr (map (\<lambda>(x, y). mkCell x y) cs))]"

definition mkPlacement :: "(int \<times> int) list list \<Rightarrow> json" where
  "mkPlacement ss = JObj [(''ships'', JArr (map mkShip ss))]"

definition fleetA :: "(int \<times> int) list list" where
  "fleetA = [[(0,0),(1,0),(2,0),(3,0),(4,0)], [(0,1),(1,1),(2,1),(3,1)], [(0,2),(1,2),(2,2)],
             [(5,5),(5,6),(5,7)], [(9,9),(9,8)]]"

definition fleetPosA :: fleet where
  "fleetPosA = [[(0,0),(1,0),(2,0),(3,0),(4,0)], [(0,1),(1,1),(2,1),(3,1)], [(0,2),(1,2),(2,2)],
                [(5,5),(5,6),(5,7)], [(9,9),(9,8)]]"

definition gridA :: grid where
  "gridA =
    [[Ship, Ship, Ship, Ship, Ship, Empty, Empty, Empty, Empty, Empty],
     [Ship, Ship, Ship, Ship, Empty, Empty, Empty, Empty, Empty, Empty],
     [Ship, Ship, Ship, Empty, Empty, Empty, Empty, Empty, Empty, Empty],
     [Empty, Empty, Empty, Empty, Empty, Empty, Empty, Empty, Empty, Empty],
     [Empty, Empty, Empty, Empty, Empty, Empty, Empty, Empty, Empty, Empty],
     [Empty, Empty, Empty, Empty, Empty, Ship, Empty, Empty, Empty, Empty],
     [Empty, Empty, Empty, Empty, Empty, Ship, Empty, Empty, Empty, Empty],
     [Empty, Empty, Empty, Empty, Empty, Ship, Empty, Empty, Empty, Empty],
     [Empty, Empty, Empty, Empty, Empty, Empty, Empty, Empty, Empty, Ship],
     [Empty, Empty, Empty, Empty, Empty, Empty, Empty, Empty, Empty, Ship]]"

definition fleetB :: "(int \<times> int) list list" where
  "fleetB = [[(9,0),(9,1),(9,2),(9,3),(9,4)], [(8,0),(8,1),(8,2),(8,3)], [(7,0),(7,1),(7,2)],
             [(6,0),(6,1),(6,2)], [(5,0),(5,1)]]"

definition gridB :: grid where
  "gridB =
    [[Empty, Empty, Empty, Empty, Empty, Ship, Ship, Ship, Ship, Ship],
     [Empty, Empty, Empty, Empty, Empty, Ship, Ship, Ship, Ship, Ship],
     [Empty, Empty, Empty, Empty, Empty, Empty, Ship, Ship, Ship, Ship],
     [Empty, Empty, Empty, Empty, Empty, Empty, Empty, Empty, Ship, Ship],
     [Empty, Empty, Empty, Empty, Empty, Empty, Empty, Empty, Empty, Ship],
     [Empty, Empty, Empty, Empty, Empty, Empty, Empty, Empty, Empty, Empty],
     [Empty, Empty, Empty, Empty, Empty, Empty, Empty, Empty, Empty, Empty],
     [Empty, Empty, Empty, Empty, Empty, Empty, Empty, Empty, Empty, Empty],
     [Empty, Empty, Empty, Empty, Empty, Empty, Empty, Empty, Empty, Empty],
     [Empty, Empty, Empty, Empty, Empty, Empty, Empty, Empty, Empty, Empty]]"

text \<open>
  Two runs of \<^verbatim>\<open>makeRoomId\<close> with different tokens; \<^verbatim>\<open>String(v).trim().toUpperCase()\<close>
  is only needed here on strings that are already trimmed and upper case.
\<close>

definition envA :: env where
  "envA = \<lparr>makeRoomId = ''A1B2C3'', clientIdOf = (\<lambda>c. ''uuid''),
            upperTrim = (\<lambda>v. case v of JStr s \<Rightarrow> s | _ \<Rightarrow> [])\<rparr>"

definition envB :: env where
  "envB = \<lparr>makeRoomId = ''D4E5F6'', clientIdOf = (\<lambda>c. ''uuid''),
            upperTrim = (\<lambda>v. case v of JStr s \<Rightarrow> s | _ \<Rightarrow> [])\<rparr>"

definition createMsg :: json where
  "createMsg = JObj [(''type'', JStr ''create_room'')]"

definition joinMsg :: "string \<Rightarrow> json" where
  "joinMsg rid = JObj [(''type'', JStr ''join_room''), (''roomId'', JStr rid)]"

definition placeMsg :: "(int \<times> int) list list \<Rightarrow> json" where
  "placeMsg f = JObj [(''type'', JStr ''place_ready''), (''placement'', mkPlacement f)]"

definition shotMsg :: "int \<Rightarrow> int \<Rightarrow> json" where
  "shotMsg x y = JObj [(''type'', JStr ''shot''), (''x'', JNum (of_int x)), (''y'', JNum (of_int y))]"

text \<open>
  A game on the room A1B2C3: connection 1 creates it, connection 2 joins, both place
  \<open>fleetA\<close>. \<open>allHits\<close> are the shots of connection 1 at every cell of the fleet of
  connection 2, in order. The states below are the stores these runs reach: after the
  two placements, after one placement only, after the first hit, after a first miss
  (the turn is then with connection 2), before the last of the hits, after all of
  them, and after connection 2 has left.
\<close>

definition setupEvents :: "event list" where
  "setupEvents =
     [Opened 1, Message envA 1 (Some createMsg), Opened 2, Message envA 2 (Some (joinMsg ''A1B2C3'')),
      Message envA 1 (Some (placeMsg fleetA)), Message envA 2 (Some (placeMsg fleetA))]"

definition allHits :: "event list" where
  "allHits = map (\<lambda>(x, y). Message envA 1 (Some (shotMsg x y))) (concat fleetA)"

definition stateStarted :: store where
  "stateStarted = fst (snd (run setupEvents []))"

definition stateOnePlaced :: store where
  "stateOnePlaced =
     fst (snd (run [Opened 1, Message envA 1 (Some createMsg), Opened 2,
                    Message envA 2 (Some (joinMsg ''A1B2C3'')),
                    Message envA 1 (Some (placeMsg fleetA))] []))"

definition stateOneHit :: store where
  "stateOneHit = fst (snd (run (setupEvents @ [Message envA 1 (Some (shotMsg 0 0))]) []))"

definition stateOneMiss :: store where
  "stateOneMiss = fst (snd (run (setupEvents @ [Message envA 1 (Some (shotMsg 5 0))]) []))"

definition stateLastShot :: store where
  "stateLastShot = fst (snd (run (setupEvents @ butlast allHits) []))"

definition stateWon :: store where
  "stateWon = fst (snd (run (setupEvents @ allHits) []))"

definition stateAlone :: store where
  "stateAlone = fst (snd (run (setupEvents @ [Closed 2]) []))"

section \<open>The validator accepts what the specification accepts\<close>

lemma otherIndex_neq: "otherIndex i \<noteq> i"
  by (simp add: otherIndex_def)

lemma spec_step1_iff: "spec_step1 zs \<longleftrightarrow> (\<forall>i. Suc i < length zs \<longrightarrow> zs ! Suc i = zs ! i + 1)"
  by (auto simp: spec_step1_def list_all_iff)

lemma contiguous_step1: "contiguous zs = spec_step1 zs"
proof (induction zs rule: contiguous.induct)
  case (1 a b rest)
  have "(\<forall>i. Suc i < length (a # b # rest) \<longrightarrow> (a # b # rest) ! Suc i = (a # b # rest) ! i + 1)
      \<longleftrightarrow> (b = a + 1 \<and> (\<forall>i. Suc i < length (b # rest) \<longrightarrow> (b # rest) ! Suc i = (b # rest) ! i + 1))"
    (is "?L \<longleftrightarrow> ?R")
  proof
    assume l: ?L
    have "b = a + 1" using l [rule_format, of 0] by simp
    moreover have "\<And>i. Suc i < length (b # rest) \<Longrightarrow> (b # rest) ! Suc i = (b # rest) ! i + 1"
      using l [rule_format, of "Suc i" for i] by simp
    ultimately show ?R by blast
  next
    assume r: ?R
    show ?L
    proof (intro allI impI)
      fix i assume "Suc i < length (a # b # rest)"
      then show "(a # b # rest) ! Suc i = (a # b # rest) ! i + 1"
        using r by (cases i) auto
    qed
  qed
  then show ?case using 1 by (simp add: spec_step1_iff)
qed (simp_all add: spec_step1_iff)

lemma contiguous_sorted_distinct:
  "contiguous zs \<Longrightarrow> (\<forall>z\<in>set (tl zs). hd zs < z) \<and> sorted zs \<and> distinct zs"
  by (induction zs rule: contiguous.induct) (auto simp: less_Suc_eq_le dest: less_imp_le)

lemma checkCells_iff:
  "checkCells g cells = Accept ps \<longleftrightarrow>
     collect spec_coord cells = Some ps \<and> (\<forall>(x, y)\<in>set ps. g ! y ! x \<noteq> Ship)"
proof (induction cells arbitrary: ps)
  case Nil
  then show ?case by auto
next
  case (Cons c cs)
  show ?case
    using Cons.IH
    by (cases "c = JNull")
      (auto simp: spec_coord_def SIZE_def split: option.splits vres.splits if_splits)
qed

lemma collect_length: "collect f xs = Some ys \<Longrightarrow> length ys = length xs"
  by (induction xs arbitrary: ys) (auto split: option.splits)

lemma spec_coord_range: "spec_coord c = Some (x, y) \<Longrightarrow> x < SIZE \<and> y < SIZE"
  by (auto simp: spec_coord_def SIZE_def split: option.splits if_splits)

lemma collect_set: "collect f xs = Some ys \<Longrightarrow> y \<in> set ys \<Longrightarrow> \<exists>x\<in>set xs. f x = Some y"
  by (induction xs arbitrary: ys) (auto split: option.splits)

lemma gridOK_nth: "gridOK g \<Longrightarrow> y < SIZE \<Longrightarrow> length (g ! y) = SIZE"
  by (auto simp: gridOK_def list_all_length)

lemma gridOK_setCell: "gridOK g \<Longrightarrow> gridOK (setCell g x y v)"
proof -
  assume g: "gridOK g"
  have "length (g[y := (g ! y)[x := v]] ! n) = SIZE" if "n < SIZE" for n
    using g that by (cases "n = y") (auto simp: gridOK_def list_all_length)
  then show ?thesis using g by (auto simp: gridOK_def setCell_def list_all_length)
qed

lemma setCell_nth:
  "gridOK g \<Longrightarrow> x < SIZE \<Longrightarrow> y < SIZE \<Longrightarrow> x' < SIZE \<Longrightarrow> y' < SIZE \<Longrightarrow>
     setCell g x y v ! y' ! x' = (if x' = x \<and> y' = y then v else g ! y' ! x')"
  by (auto simp: gridOK_def setCell_def list_all_length nth_list_update)

lemma writeRow_ok:
  "gridOK g \<Longrightarrow> gridOK (writeRow g y xs)"
  unfolding writeRow_def by (induction xs arbitrary: g) (auto simp: gridOK_setCell)

lemma writeCol_ok:
  "gridOK g \<Longrightarrow> gridOK (writeCol g x ys)"
  unfolding writeCol_def by (induction ys arbitrary: g) (auto simp: gridOK_setCell)

lemma writeRow_nth:
  "gridOK g \<Longrightarrow> y < SIZE \<Longrightarrow> \<forall>x\<in>set xs. x < SIZE \<Longrightarrow> x' < SIZE \<Longrightarrow> y' < SIZE \<Longrightarrow>
     writeRow g y xs ! y' ! x' = (if y' = y \<and> x' \<in> set xs then Ship else g ! y' ! x')"
  unfolding writeRow_def
  by (induction xs arbitrary: g) (auto simp: gridOK_setCell setCell_nth)

lemma writeCol_nth:
  "gridOK g \<Longrightarrow> x < SIZE \<Longrightarrow> \<forall>y\<in>set ys. y < SIZE \<Longrightarrow> x' < SIZE \<Longrightarrow> y' < SIZE \<Longrightarrow>
     writeCol g x ys ! y' ! x' = (if x' = x \<and> y' \<in> set ys then Ship else g ! y' ! x')"
  unfolding writeCol_def
  by (induction ys arbitrary: g) (auto simp: gridOK_setCell setCell_nth)

lemma remdups_card: "length (remdups zs) = card (set zs)"
  by (simp add: length_remdups_card_conv)

lemma card1_all_eq: "card (f ` set cs) = 1 \<Longrightarrow> p \<in> set cs \<Longrightarrow> f p = f (cs ! 0)"
proof -
  assume c: "card (f ` set cs) = 1" and p: "p \<in> set cs"
  then obtain a where a: "f ` set cs = {a}" by (auto simp: card_1_singleton_iff)
  from p have "cs \<noteq> []" by auto
  then have "cs ! 0 \<in> set cs" by (cases cs) auto
  then have "f (cs ! 0) \<in> f ` set cs" and "f p \<in> f ` set cs" using p by blast+
  with a show ?thesis by simp
qed

lemma straight_iff:
  assumes "2 \<le> length cs"
  shows "spec_straight cs \<longleftrightarrow>
     (isHoriz cs \<and> contiguous (sort (map fst cs))) \<or> (\<not> isHoriz cs \<and> isVert cs \<and> contiguous (sort (map snd cs)))"
proof -
  have d: "contiguous (sort (map h cs)) \<Longrightarrow> card (h ` set cs) = length cs" for h :: "pos \<Rightarrow> nat"
  proof -
    assume "contiguous (sort (map h cs))"
    then have "distinct (sort (map h cs))" using contiguous_sorted_distinct by blast
    then have "distinct (map h cs)" by simp
    then show ?thesis using distinct_card [of "map h cs"] by simp
  qed
  show ?thesis
    using assms d [of fst] d [of snd]
    by (auto simp: spec_straight_def isHoriz_def isVert_def remdups_card contiguous_step1 [symmetric])
qed

lemma spec_ship_JNull: "spec_ship JNull = None"
  by (simp add: spec_ship_def)

lemma placeShip_iff:
  assumes "gridOK g"
  shows "placeShip g ship = Accept (g1, cs) \<longleftrightarrow>
     spec_ship ship = Some cs \<and> 2 \<le> length cs \<and> spec_straight cs \<and>
     (\<forall>(x, y)\<in>set cs. g ! y ! x \<noteq> Ship) \<and> g1 = written g cs"
proof (cases "ship = JNull")
  case True
  then show ?thesis by (simp add: placeShip_def spec_ship_JNull)
next
  case False
  show ?thesis
  proof (cases "\<exists>cells. propOf ship ''cells'' = Some (JArr cells)")
    case no: False
    then have "placeShip g ship = Reject ''Invalid ship cells''"
      using False by (auto simp: placeShip_def split: option.splits json.splits)
    moreover have "spec_ship ship = None"
      using no by (auto simp: spec_ship_def split: option.splits json.splits)
    ultimately show ?thesis by simp
  next
    case True
    then obtain cells where cells: "propOf ship ''cells'' = Some (JArr cells)" by blast
    show ?thesis
    proof (cases "checkCells g cells")
      case Throw
      then show ?thesis
        using False cells checkCells_iff [of g cells cs]
        by (auto simp: placeShip_def spec_ship_def)
    next
      case (Reject e)
      then show ?thesis
        using False cells checkCells_iff [of g cells cs]
        by (auto simp: placeShip_def spec_ship_def)
    next
      case (Accept ps)
      then have ps: "collect spec_coord cells = Some ps" "\<forall>(x, y)\<in>set ps. g ! y ! x \<noteq> Ship"
        using checkCells_iff [of g cells ps] by auto
      have len: "length ps = length cells" using ps(1) by (rule collect_length)
      show ?thesis
      proof (cases "2 \<le> length cells")
        case short: False
        then show ?thesis
          using False cells ps len by (auto simp: placeShip_def spec_ship_def)
      next
        case True
        then have "2 \<le> length ps" using len by simp
        note st = straight_iff [OF this]
        show ?thesis
          using False cells Accept True ps len st
          by (auto simp: placeShip_def spec_ship_def written_def Let_def)
      qed
    qed
  qed
qed

lemma spec_ship_range:
  "spec_ship ship = Some cs \<Longrightarrow> (x, y) \<in> set cs \<Longrightarrow> x < SIZE \<and> y < SIZE"
  unfolding spec_ship_def
  by (auto split: option.splits json.splits dest!: collect_set dest: spec_coord_range)

lemma written_grid:
  assumes g: "gridOK g" and r: "\<forall>(x, y)\<in>set cs. x < SIZE \<and> y < SIZE"
    and l: "2 \<le> length cs" and s: "spec_straight cs"
    and x: "x < SIZE" and y: "y < SIZE"
  shows "written g cs ! y ! x = (if (x, y) \<in> set cs then Ship else g ! y ! x)"
proof -
  have z: "cs ! 0 \<in> set cs" using l by (cases cs) auto
  show ?thesis
  proof (cases "isHoriz cs")
    case True
    then have c: "card (snd ` set cs) = 1" by (simp add: isHoriz_def remdups_card)
    have same: "\<And>p. p \<in> set cs \<Longrightarrow> snd p = snd (cs ! 0)" using card1_all_eq [OF c] .
    have y0: "snd (cs ! 0) < SIZE" using r z by (auto simp: case_prod_beta)
    have xs: "\<forall>a\<in>set (sort (map fst cs)). a < SIZE" using r by auto
    have "(x, y) \<in> set cs \<longleftrightarrow> y = snd (cs ! 0) \<and> x \<in> set (sort (map fst cs))"
      using same by force
    then show ?thesis
      using True writeRow_nth [OF g y0 xs x y] by (simp add: written_def)
  next
    case False
    then have v: "isVert cs" using s straight_iff [OF l] by blast
    then have c: "card (fst ` set cs) = 1" by (simp add: isVert_def remdups_card)
    have same: "\<And>p. p \<in> set cs \<Longrightarrow> fst p = fst (cs ! 0)" using card1_all_eq [OF c] .
    have x0: "fst (cs ! 0) < SIZE" using r z by (auto simp: case_prod_beta)
    have ys: "\<forall>a\<in>set (sort (map snd cs)). a < SIZE" using r by auto
    have "(x, y) \<in> set cs \<longleftrightarrow> x = fst (cs ! 0) \<and> y \<in> set (sort (map snd cs))"
      using same by force
    then show ?thesis
      using False writeCol_nth [OF g x0 ys x y] by (simp add: written_def)
  qed
qed

lemma written_ok: "gridOK g \<Longrightarrow> gridOK (written g cs)"
  by (simp add: written_def writeRow_ok writeCol_ok)

lemma collect_spec_ship_range:
  "collect spec_ship shs = Some f \<Longrightarrow> s \<in> set f \<Longrightarrow> (x, y) \<in> set s \<Longrightarrow> x < SIZE \<and> y < SIZE"
  using collect_set [of spec_ship shs f s] spec_ship_range by blast

lemma placeShips_Cons:
  "placeShips g (ship # rest) = Accept (g', f) \<longleftrightarrow>
     (\<exists>g1 cs f'. placeShip g ship = Accept (g1, cs) \<and> placeShips g1 rest = Accept (g', f') \<and> f = cs # f')"
  by (auto split: vres.splits)

lemma collect_Cons:
  "collect h (a # as) = Some ys \<longleftrightarrow> (\<exists>b bs. h a = Some b \<and> collect h as = Some bs \<and> ys = b # bs)"
  by (auto split: option.splits)

lemma placeShips_iff:
  "gridOK g \<Longrightarrow>
   placeShips g shs = Accept (g', f) \<longleftrightarrow>
     collect spec_ship shs = Some f \<and> list_all (\<lambda>s. 2 \<le> length s) f \<and>
     list_all spec_straight f \<and> spec_disjoint f \<and>
     (\<forall>s\<in>set f. \<forall>(x, y)\<in>set s. g ! y ! x \<noteq> Ship) \<and> g' = foldl written g f"
proof (induction shs arbitrary: g f)
  case Nil
  then show ?case by auto
next
  case (Cons ship rest)
  show ?case
  proof
    assume "placeShips g (ship # rest) = Accept (g', f)"
    then obtain g1 cs f' where a: "placeShip g ship = Accept (g1, cs)"
      and b: "placeShips g1 rest = Accept (g', f')" and f: "f = cs # f'"
      unfolding placeShips_Cons by blast
    from a have a': "spec_ship ship = Some cs" "2 \<le> length cs" "spec_straight cs"
      "\<forall>(x, y)\<in>set cs. g ! y ! x \<noteq> Ship" "g1 = written g cs"
      using placeShip_iff [OF Cons.prems] by blast+
    have ok1: "gridOK g1" using a'(5) Cons.prems by (simp add: written_ok)
    from b have b': "collect spec_ship rest = Some f'" "list_all (\<lambda>s. 2 \<le> length s) f'"
      "list_all spec_straight f'" "spec_disjoint f'"
      "\<forall>s\<in>set f'. \<forall>(x, y)\<in>set s. g1 ! y ! x \<noteq> Ship" "g' = foldl written g1 f'"
      using Cons.IH [OF ok1, of f'] by blast+
    have rng: "\<forall>(x, y)\<in>set cs. x < SIZE \<and> y < SIZE"
      using spec_ship_range [OF a'(1)] by blast
    have w: "\<And>x y. x < SIZE \<Longrightarrow> y < SIZE \<Longrightarrow>
        g1 ! y ! x = (if (x, y) \<in> set cs then Ship else g ! y ! x)"
      unfolding a'(5) using written_grid [OF Cons.prems rng a'(2) a'(3)] .
    have free: "\<And>s x y. s \<in> set f' \<Longrightarrow> (x, y) \<in> set s \<Longrightarrow> (x, y) \<notin> set cs \<and> g ! y ! x \<noteq> Ship"
    proof -
      fix s x y assume s: "s \<in> set f'" and m: "(x, y) \<in> set s"
      then have "x < SIZE \<and> y < SIZE" using collect_spec_ship_range [OF b'(1)] by blast
      moreover have "g1 ! y ! x \<noteq> Ship" using b'(5) s m by blast
      ultimately show "(x, y) \<notin> set cs \<and> g ! y ! x \<noteq> Ship" using w by (auto split: if_splits)
    qed
    have "list_all (\<lambda>t. set cs \<inter> set t = {}) f'"
      unfolding list_all_iff using free by fast
    moreover have "\<forall>s\<in>set f'. \<forall>(x, y)\<in>set s. g ! y ! x \<noteq> Ship" using free by fast
    ultimately show "collect spec_ship (ship # rest) = Some f \<and> list_all (\<lambda>s. 2 \<le> length s) f \<and>
       list_all spec_straight f \<and> spec_disjoint f \<and>
       (\<forall>s\<in>set f. \<forall>(x, y)\<in>set s. g ! y ! x \<noteq> Ship) \<and> g' = foldl written g f"
      using a' b' f by simp
  next
    assume r: "collect spec_ship (ship # rest) = Some f \<and> list_all (\<lambda>s. 2 \<le> length s) f \<and>
       list_all spec_straight f \<and> spec_disjoint f \<and>
       (\<forall>s\<in>set f. \<forall>(x, y)\<in>set s. g ! y ! x \<noteq> Ship) \<and> g' = foldl written g f"
    then obtain cs f' where a: "spec_ship ship = Some cs" and b: "collect spec_ship rest = Some f'"
      and f: "f = cs # f'"
      unfolding collect_Cons by blast
    define g1 where "g1 = written g cs"
    have ok1: "gridOK g1" using Cons.prems by (simp add: g1_def written_ok)
    have p: "placeShip g ship = Accept (g1, cs)"
      using placeShip_iff [OF Cons.prems, of ship g1 cs] a r f by (simp add: g1_def)
    have rng: "\<forall>(x, y)\<in>set cs. x < SIZE \<and> y < SIZE"
      using spec_ship_range [OF a] by blast
    have l2: "2 \<le> length cs" and st: "spec_straight cs" using r f by simp_all
    have w: "\<And>x y. x < SIZE \<Longrightarrow> y < SIZE \<Longrightarrow>
        g1 ! y ! x = (if (x, y) \<in> set cs then Ship else g ! y ! x)"
      unfolding g1_def using written_grid [OF Cons.prems rng l2 st] .
    have dj: "\<And>s. s \<in> set f' \<Longrightarrow> set cs \<inter> set s = {}"
      using r f by (simp add: list_all_iff)
    have "\<And>s x y. s \<in> set f' \<Longrightarrow> (x, y) \<in> set s \<Longrightarrow> g1 ! y ! x \<noteq> Ship"
    proof -
      fix s x y assume s: "s \<in> set f'" and m: "(x, y) \<in> set s"
      then have i: "x < SIZE \<and> y < SIZE" using collect_spec_ship_range [OF b] by blast
      have "(x, y) \<notin> set cs" using dj [OF s] m by blast
      moreover have "g ! y ! x \<noteq> Ship" using r f s m by auto
      ultimately show "g1 ! y ! x \<noteq> Ship" using w i by simp
    qed
    then have "\<forall>s\<in>set f'. \<forall>(x, y)\<in>set s. g1 ! y ! x \<noteq> Ship" by fast
    then have "placeShips g1 rest = Accept (g', f')"
      using Cons.IH [OF ok1, of f'] b r f by (simp add: g1_def)
    then show "placeShips g (ship # rest) = Accept (g', f)"
      unfolding placeShips_Cons using p f by blast
  qed
qed

lemma foldl_written_ok: "gridOK g \<Longrightarrow> gridOK (foldl written g f)"
  by (induction f arbitrary: g) (auto simp: written_ok)




lemma sizes_of_fleet:
  "collect spec_ship shs = Some f \<Longrightarrow>
     JNull \<notin> set shs \<and> numbers (map cellsLength shs) = Some (map (\<lambda>s. of_nat (length s)) f)"
proof (induction shs arbitrary: f)
  case Nil
  then show ?case by simp
next
  case (Cons s shs)
  from Cons.prems obtain cs f' where a: "spec_ship s = Some cs"
    and b: "collect spec_ship shs = Some f'" and f: "f = cs # f'"
    unfolding collect_Cons by blast
  from a obtain cells where c: "propOf s ''cells'' = Some (JArr cells)"
    and d: "collect spec_coord cells = Some cs"
    by (auto simp: spec_ship_def split: option.splits json.splits)
  have "cellsLength s = Some (JNum (of_nat (length cs)))"
    using c collect_length [OF d] by (simp add: cellsLength_def)
  moreover have "s \<noteq> JNull" using a by (auto simp: spec_ship_JNull)
  ultimately show ?case using Cons.IH [OF b] f by simp
qed

lemma sort_of_nat: "sort (map (of_nat :: nat \<Rightarrow> rat) ls) = map of_nat (sort ls)"
  by (rule properties_for_sort) (simp_all add: sorted_map)

lemma sort_eq_mset: "sort (xs :: nat list) = sort ys \<longleftrightarrow> mset xs = mset ys"
proof
  assume "sort xs = sort ys"
  then have "mset (sort xs) = mset (sort ys)" by simp
  then show "mset xs = mset ys" by simp
next
  assume "mset xs = mset ys"
  then show "sort xs = sort ys" by (intro properties_for_sort) simp_all
qed

lemma sort_sizes_iff:
  "sort (map (\<lambda>s. (of_nat (length s) :: rat)) f) = map of_nat (sort SHIP_SIZES) \<longleftrightarrow>
     mset (map length f) = {#5, 4, 3, 3, 2#}"
proof -
  have m: "map (\<lambda>s. (of_nat (length s) :: rat)) f = map of_nat (map length f)" by simp
  have i: "inj (of_nat :: nat \<Rightarrow> rat)" by (simp add: inj_on_def)
  have "sort (map (\<lambda>s. (of_nat (length s) :: rat)) f) = map of_nat (sort SHIP_SIZES) \<longleftrightarrow>
      map (of_nat :: nat \<Rightarrow> rat) (sort (map length f)) = map of_nat (sort SHIP_SIZES)"
    unfolding m sort_of_nat ..
  also have "\<dots> \<longleftrightarrow> sort (map length f) = sort SHIP_SIZES"
    using inj_map_eq_map [OF i] by blast
  also have "\<dots> \<longleftrightarrow> mset (map length f) = mset SHIP_SIZES"
    by (rule sort_eq_mset)
  also have "mset SHIP_SIZES = {#5, 4, 3, 3, 2#}" by (simp add: SHIP_SIZES_def)
  finally show ?thesis .
qed

lemma fleet_lengths:
  assumes "mset (map length f) = {#5, 4, 3, 3, 2#}" and "s \<in> set f"
  shows "length s \<in> {2, 3, 4, 5}"
proof -
  have "length s \<in> set (map length f)" using assms(2) by simp
  also have "set (map length f) = set_mset (mset (map length f))" by (simp only: set_mset_mset)
  also have "\<dots> = {2, 3, 4, 5}" unfolding assms(1) by auto
  finally show ?thesis .
qed

lemma emptyGrid_ok: "gridOK emptyGrid"
  by (simp add: gridOK_def emptyGrid_def list_all_iff)

lemma emptyGrid_nth: "x < SIZE \<Longrightarrow> y < SIZE \<Longrightarrow> emptyGrid ! y ! x = Empty"
  by (simp add: emptyGrid_def)

lemma validatePlacement_iff:
  "validatePlacement p = Accept (g, f) \<longleftrightarrow>
     spec_fleet p = Some f \<and> mset (map length f) = {#5, 4, 3, 3, 2#} \<and> spec_disjoint f \<and>
     list_all spec_straight f \<and> g = foldl written emptyGrid f"
proof (cases "\<exists>v shs. p = Some v \<and> propOf v ''ships'' = Some (JArr shs)")
  case False
  then have "spec_fleet p = None"
    by (auto simp: spec_fleet_def split: option.splits json.splits)
  moreover have "validatePlacement p = Reject ''Bad placement format''"
    using False by (auto simp: validatePlacement_def split: option.splits json.splits)
  ultimately show ?thesis by simp
next
  case True
  then obtain v shs where p: "p = Some v" and s: "propOf v ''ships'' = Some (JArr shs)" by blast
  then have t: "truthy p" by (cases v) auto
  have sf: "spec_fleet p = collect spec_ship shs" using p s by (simp add: spec_fleet_def)
  show ?thesis
  proof
    assume a: "validatePlacement p = Accept (g, f)"
    then have n: "JNull \<notin> set shs"
      using p s t by (auto simp: validatePlacement_def split: if_splits)
    from a obtain qs where q: "numbers (map cellsLength shs) = Some qs"
      and sq: "sort qs = map of_nat (sort SHIP_SIZES)"
      and ps: "placeShips emptyGrid shs = Accept (g, f)"
      using p s t n by (auto simp: validatePlacement_def Let_def split: if_splits option.splits)
    note r = placeShips_iff [OF emptyGrid_ok, of shs g f, THEN iffD1, OF ps]
    have "qs = map (\<lambda>s. of_nat (length s)) f" using sizes_of_fleet [of shs f] r q by simp
    then have "mset (map length f) = {#5, 4, 3, 3, 2#}" using sq sort_sizes_iff by blast
    then show "spec_fleet p = Some f \<and> mset (map length f) = {#5, 4, 3, 3, 2#} \<and> spec_disjoint f \<and>
       list_all spec_straight f \<and> g = foldl written emptyGrid f"
      using r sf by simp
  next
    assume a: "spec_fleet p = Some f \<and> mset (map length f) = {#5, 4, 3, 3, 2#} \<and> spec_disjoint f \<and>
       list_all spec_straight f \<and> g = foldl written emptyGrid f"
    then have c: "collect spec_ship shs = Some f" using sf by simp
    have n: "JNull \<notin> set shs"
      and q: "numbers (map cellsLength shs) = Some (map (\<lambda>s. of_nat (length s)) f)"
      using sizes_of_fleet [OF c] by blast+
    have sq: "sort (map (\<lambda>s. (of_nat (length s) :: rat)) f) = map of_nat (sort SHIP_SIZES)"
      using a sort_sizes_iff by blast
    have "size (mset (map length f)) = 5" using a by simp
    then have l: "length shs = 5" using collect_length [OF c] by simp
    have "\<And>s. s \<in> set f \<Longrightarrow> 2 \<le> length s"
    proof -
      fix s assume "s \<in> set f"
      then show "2 \<le> length s" using a fleet_lengths [of f s] by auto
    qed
    then have l2: "list_all (\<lambda>s. 2 \<le> length s) f" by (simp add: list_all_iff)
    have fr: "\<forall>s\<in>set f. \<forall>(x, y)\<in>set s. emptyGrid ! y ! x \<noteq> Ship"
      using collect_spec_ship_range [OF c] emptyGrid_nth by fastforce
    have "placeShips emptyGrid shs = Accept (g, f)"
      using placeShips_iff [OF emptyGrid_ok, of shs g f] c l2 fr a by simp
    then show "validatePlacement p = Accept (g, f)"
      using p s t n q sq l by (simp add: validatePlacement_def SHIP_SIZES_def)
  qed
qed





section \<open>The handlers, case by case\<close>

lemma findIndex_Some: "findIndex P xs = Some i \<Longrightarrow> i < length xs \<and> P (xs ! i)"
  by (induction xs arbitrary: i) (auto split: if_splits)

lemma findRoom_Some:
  "findRoom c rooms = Some (rid, r, i) \<Longrightarrow> (rid, r) \<in> set rooms \<and> i < length (players r) \<and> ws (players r ! i) = c"
  by (induction rooms) (auto split: option.splits dest: findIndex_Some)

lemma findRoom_map_of:
  "distinct (map fst rooms) \<Longrightarrow> findRoom c rooms = Some (rid, r, i) \<Longrightarrow> map_of rooms rid = Some r"
  using findRoom_Some [of c rooms rid r i] by simp

lemma map_of_roomsSet: "map_of (roomsSet k v rooms) = (map_of rooms)(k \<mapsto> v)"
  by (induction rooms) (auto simp: fun_eq_iff)

lemma map_of_roomsSet_other: "k \<noteq> rid \<Longrightarrow> map_of (roomsSet k v rooms) rid = map_of rooms rid"
  by (simp add: map_of_roomsSet)

lemma keys_roomsSet: "fst ` set (roomsSet k v rooms) = insert k (fst ` set rooms)"
proof (induction rooms)
  case Nil
  then show ?case by simp
next
  case (Cons a rooms)
  then show ?case by (cases a) (auto simp: image_iff)
qed

lemma distinct_roomsSet: "distinct (map fst rooms) \<Longrightarrow> distinct (map fst (roomsSet k v rooms))"
proof (induction rooms)
  case Nil
  then show ?case by simp
next
  case (Cons a rooms)
  then show ?case using keys_roomsSet [of k v rooms] by (cases a) auto
qed

lemma broadcast_msgs: "(a, m) \<in> set (broadcast r m') \<Longrightarrow> m = m'"
  by (auto simp: broadcast_def)

lemma createRoom_out: "createRoom E c rooms = (oc, rooms', out) \<Longrightarrow>
  oc = Returned \<and> out = [(c, RoomCreated (makeRoomId E) 1)] \<and>
  rooms' = roomsSet (makeRoomId E) \<lparr>players = [newPlayer E c], turn = 0, started = False\<rparr> rooms"
  by (auto simp: createRoom_def Let_def)

lemma joinRoom_cases:
  "joinRoom E c msg rooms = (oc, rooms', out) \<Longrightarrow>
    (oc = Returned \<and> rooms' = rooms \<and> (\<exists>e. out = [(c, Error e)])) \<or>
    (\<exists>r. map_of rooms (roomIdOf E msg) = Some r \<and>
       rooms' = roomsSet (roomIdOf E msg) (r\<lparr>players := players r @ [newPlayer E c]\<rparr>) rooms \<and>
       (oc = Returned \<longrightarrow> (\<exists>a. (a, RoomJoined (roomIdOf E msg) 2) \<in> set out)) \<and>
       (\<forall>(a, m)\<in>set out. \<not> isShotMsg m \<and> (\<forall>e. m \<noteq> Error e)))"
  by (auto simp: joinRoom_def Let_def broadcast_def isShotMsg_def split: option.splits if_splits)

lemma players_placedRoom:
  "players (placedRoom room pIndex g ss) =
     (players room)[pIndex := (players room ! pIndex)\<lparr>ready := True, grid := Some g, ships := Some ss\<rparr>]"
  by (simp add: placedRoom_def Let_def)

lemma players_shotRoom:
  "players (shotRoom room d g cell x y) =
     (players room)[d := (players room ! d)\<lparr>grid := Some (shotGrid g cell x y)\<rparr>]"
  by (simp add: shotRoom_def Let_def split: option.splits)

lemma started_shotRoom: "started (shotRoom room d g cell x y) = started room"
  by (simp add: shotRoom_def Let_def split: option.splits)

lemma turn_shotRoom:
  "ships (players room ! d) = Some ss \<Longrightarrow>
   turn (shotRoom room d g cell x y) =
     (if allShipsSunk (shotGrid g cell x y) ss \<or> cell = Ship then turn room else otherIndex (turn room))"
  by (simp add: shotRoom_def Let_def)

lemma placeReady_Accept:
  "found = Some (rid, room, pIndex) \<Longrightarrow> \<not> length (players room) < 2 \<Longrightarrow>
   validatePlacement (propOf msg ''placement'') = Accept (g, ss) \<Longrightarrow>
   placeReady c msg found rooms =
     (Returned, roomsSet rid (placedRoom room pIndex g ss) rooms,
      (c, ReadyOk) # broadcast (placedRoom room pIndex g ss) (StatusReady (pIndex + 1)) @
        (if started (placedRoom room pIndex g ss) \<and> \<not> started room
         then broadcast (placedRoom room pIndex g ss) (GameStart 1) else []))"
  by (simp add: placeReady_def placedRoom_def Let_def broadcast_def)

lemma placeReady_cases:
  assumes "placeReady c msg found rooms = (oc, rooms', out)"
  shows "(oc = Returned \<and> rooms' = rooms \<and> (\<exists>e. out = [(c, Error e)])) \<or>
    (oc = TypeError \<and> rooms' = rooms \<and> out = []) \<or>
    (\<exists>rid room pIndex g ss. found = Some (rid, room, pIndex) \<and> oc = Returned \<and>
       validatePlacement (propOf msg ''placement'') = Accept (g, ss) \<and>
       rooms' = roomsSet rid (placedRoom room pIndex g ss) rooms \<and>
       (c, ReadyOk) \<in> set out \<and>
       (\<forall>(a, m)\<in>set out. \<not> isShotMsg m \<and> (\<forall>e. m \<noteq> Error e)))"
proof (cases found)
  case None
  then show ?thesis using assms by (auto simp: placeReady_def)
next
  case (Some t)
  then obtain rid room pIndex where f: "found = Some (rid, room, pIndex)" by (cases t) auto
  show ?thesis
  proof (cases "length (players room) < 2")
    case True
    then show ?thesis using assms f by (auto simp: placeReady_def)
  next
    case False
    show ?thesis
    proof (cases "validatePlacement (propOf msg ''placement'')")
      case Throw
      then show ?thesis using assms f False by (auto simp: placeReady_def)
    next
      case (Reject e)
      then show ?thesis using assms f False by (auto simp: placeReady_def)
    next
      case (Accept t')
      then obtain g ss where v: "validatePlacement (propOf msg ''placement'') = Accept (g, ss)"
        by (cases t') auto
      note e = placeReady_Accept [OF f False v, of c rooms]
      have "\<forall>(a, m)\<in>set out. \<not> isShotMsg m \<and> (\<forall>e. m \<noteq> Error e)"
        using assms e by (auto simp: isShotMsg_def dest!: broadcast_msgs split: if_splits)
      moreover have "(c, ReadyOk) \<in> set out" using assms e by auto
      ultimately show ?thesis using assms e f v by auto
    qed
  qed
qed

lemma resolveShot_None:
  "ships (players room ! d) = None \<Longrightarrow>
   resolveShot rid room pIndex d g cell x y rooms =
     (TypeError, roomsSet rid (shotRoom room d g cell x y) rooms, [])"
  by (simp add: resolveShot_def shotRoom_def shotGrid_def Let_def)

lemma resolveShot_Some:
  "ships (players room ! d) = Some ss \<Longrightarrow>
   resolveShot rid room pIndex d g cell x y rooms =
     (Returned, roomsSet rid (shotRoom room d g cell x y) rooms,
      (let g' = shotGrid g cell x y; hit = (cell = Ship);
           info = (if hit then findSunk g' ss x y else (False, None));
           win = allShipsSunk g' ss
       in [(ws (players room ! pIndex), ShotResult x y hit (fst info) (snd info) win),
           (ws (players room ! d), GotShot x y hit (fst info) (snd info) win)] @
          broadcast (shotRoom room d g cell x y)
            (if win then GameOver (pIndex + 1) else Turn (turn (shotRoom room d g cell x y) + 1))))"
  by (simp add: resolveShot_def shotRoom_def shotGrid_def Let_def)

lemma resolveShot_store:
  "resolveShot rid room pIndex d g cell x y rooms = (oc, rooms', out) \<Longrightarrow>
   rooms' = roomsSet rid (shotRoom room d g cell x y) rooms"
  using resolveShot_None [of room d rid pIndex g cell x y rooms]
    resolveShot_Some [of room d _ rid pIndex g cell x y rooms]
  by (cases "ships (players room ! d)") auto

lemma shot_cases:
  "shot c msg found rooms = res \<Longrightarrow>
    (\<exists>e. res = (Returned, rooms, [(c, Error e)])) \<or>
    res = (TypeError, rooms, []) \<or>
    (\<exists>rid room pIndex x y g cell. found = Some (rid, room, pIndex) \<and> started room \<and>
       pIndex = turn room \<and> shotCoords msg = Some (x, y) \<and>
       otherIndex pIndex < length (players room) \<and>
       grid (players room ! otherIndex pIndex) = Some g \<and> cellAt g x y = Some cell \<and>
       cell \<noteq> Miss \<and> cell \<noteq> Hit \<and>
       res = resolveShot rid room pIndex (otherIndex pIndex) g cell x y rooms)"
  by (auto simp: shot_def Let_def split: option.splits if_splits prod.splits)

lemma onMessage_typed:
  "msg \<noteq> JNull \<Longrightarrow> truthy (propOf msg ''type'') \<Longrightarrow>
   onMessage E c (Some msg) rooms =
     (if propOf msg ''type'' = Some (JStr ''create_room'') then createRoom E c rooms
      else if propOf msg ''type'' = Some (JStr ''join_room'') then joinRoom E c msg rooms
      else if propOf msg ''type'' = Some (JStr ''place_ready'') then placeReady c msg (findRoom c rooms) rooms
      else if propOf msg ''type'' = Some (JStr ''shot'') then shot c msg (findRoom c rooms) rooms
      else (Returned, rooms, [(c, Error ''Unknown message type'')]))"
  by (simp add: onMessage_def Let_def)

lemma typeless_dropped:
  "msg \<noteq> JNull \<Longrightarrow> \<not> truthy (propOf msg ''type'') \<Longrightarrow>
   onMessage E c (Some msg) rooms = (Returned, rooms, [])"
  by (simp add: onMessage_def)

lemma shot_sent:
  assumes r: "onMessage E c raw rooms = (oc, rooms', out)" and m: "(a, m) \<in> set out" "isShotMsg m"
  shows "\<exists>msg rid room pIndex x y g cell ss.
     raw = Some msg \<and> propOf msg ''type'' = Some (JStr ''shot'') \<and>
     findRoom c rooms = Some (rid, room, pIndex) \<and> started room \<and> pIndex = turn room \<and>
     shotCoords msg = Some (x, y) \<and> otherIndex pIndex < length (players room) \<and>
     grid (players room ! otherIndex pIndex) = Some g \<and> cellAt g x y = Some cell \<and>
     cell \<noteq> Miss \<and> cell \<noteq> Hit \<and> ships (players room ! otherIndex pIndex) = Some ss \<and>
     (oc, rooms', out) = resolveShot rid room pIndex (otherIndex pIndex) g cell x y rooms"
proof (cases raw)
  case None
  then show ?thesis using r m by (auto simp: onMessage_def isShotMsg_def)
next
  case (Some msg)
  have n: "msg \<noteq> JNull" using r m Some by (auto simp: onMessage_def)
  have t: "truthy (propOf msg ''type'')" using r m Some n by (auto simp: onMessage_def split: if_splits)
  note d = onMessage_typed [OF n t, of E c rooms]
  consider (cr) "propOf msg ''type'' = Some (JStr ''create_room'')"
    | (jn) "propOf msg ''type'' = Some (JStr ''join_room'')"
    | (pl) "propOf msg ''type'' = Some (JStr ''place_ready'')"
    | (sh) "propOf msg ''type'' = Some (JStr ''shot'')"
    | (un) "propOf msg ''type'' \<noteq> Some (JStr ''create_room'')" "propOf msg ''type'' \<noteq> Some (JStr ''join_room'')"
           "propOf msg ''type'' \<noteq> Some (JStr ''place_ready'')" "propOf msg ''type'' \<noteq> Some (JStr ''shot'')"
    by blast
  then show ?thesis
  proof cases
    case cr
    then have "createRoom E c rooms = (oc, rooms', out)" using r Some d by simp
    then show ?thesis using m createRoom_out by (fastforce simp: isShotMsg_def)
  next
    case jn
    then have "joinRoom E c msg rooms = (oc, rooms', out)" using r Some d by simp
    from joinRoom_cases [OF this] show ?thesis using m by (fastforce simp: isShotMsg_def)
  next
    case pl
    then have "placeReady c msg (findRoom c rooms) rooms = (oc, rooms', out)" using r Some d by simp
    from placeReady_cases [OF this] show ?thesis using m by (fastforce simp: isShotMsg_def)
  next
    case sh
    then have e: "shot c msg (findRoom c rooms) rooms = (oc, rooms', out)" using r Some d by simp
    from shot_cases [OF e] m obtain rid room pIndex x y g cell where
      f: "findRoom c rooms = Some (rid, room, pIndex)" "started room" "pIndex = turn room"
        "shotCoords msg = Some (x, y)" "otherIndex pIndex < length (players room)"
        "grid (players room ! otherIndex pIndex) = Some g" "cellAt g x y = Some cell"
        "cell \<noteq> Miss" "cell \<noteq> Hit"
        "(oc, rooms', out) = resolveShot rid room pIndex (otherIndex pIndex) g cell x y rooms"
      by (auto simp: isShotMsg_def)
    have "ships (players room ! otherIndex pIndex) \<noteq> None"
    proof
      assume "ships (players room ! otherIndex pIndex) = None"
      from resolveShot_None [OF this, of rid pIndex g cell x y rooms] f(10) have "out = []" by simp
      then show False using m by simp
    qed
    then obtain ss where "ships (players room ! otherIndex pIndex) = Some ss" by blast
    then show ?thesis using f Some sh by blast
  next
    case un
    then have "(oc, rooms', out) = (Returned, rooms, [(c, Error ''Unknown message type'')])"
      using r Some d by simp
    then show ?thesis using m by (auto simp: isShotMsg_def)
  qed
qed

lemma allShipsSunk_iff:
  "allShipsSunk g ss \<longleftrightarrow> (\<forall>s\<in>set ss. \<forall>(x, y)\<in>set s. cellAt g x y = Some Hit)"
  by (auto simp: allShipsSunk_def computeSunk_def list_all_iff)

lemma shot_accepted_shape:
  assumes r: "onMessage E c raw rooms = (oc, rooms', out)" and m: "(a, m) \<in> set out" "isShotMsg m"
  shows "\<exists>msg rid room pIndex x y g cell ss hit info win room'.
     raw = Some msg \<and> propOf msg ''type'' = Some (JStr ''shot'') \<and>
     findRoom c rooms = Some (rid, room, pIndex) \<and> started room \<and> pIndex = turn room \<and>
     shotCoords msg = Some (x, y) \<and> otherIndex pIndex < length (players room) \<and>
     grid (players room ! otherIndex pIndex) = Some g \<and> cellAt g x y = Some cell \<and>
     cell \<noteq> Miss \<and> cell \<noteq> Hit \<and> ships (players room ! otherIndex pIndex) = Some ss \<and>
     hit = (cell = Ship) \<and> win = allShipsSunk (shotGrid g cell x y) ss \<and>
     info = (if hit then findSunk (shotGrid g cell x y) ss x y else (False, None)) \<and>
     room' = shotRoom room (otherIndex pIndex) g cell x y \<and>
     oc = Returned \<and> rooms' = roomsSet rid room' rooms \<and>
     out = [(c, ShotResult x y hit (fst info) (snd info) win),
            (ws (players room ! otherIndex pIndex), GotShot x y hit (fst info) (snd info) win)] @
           broadcast room' (if win then GameOver (pIndex + 1) else Turn (turn room' + 1))"
proof -
  from shot_sent [OF r m] obtain msg rid room pIndex x y g cell ss where
    f: "raw = Some msg" "propOf msg ''type'' = Some (JStr ''shot'')"
      "findRoom c rooms = Some (rid, room, pIndex)" "started room" "pIndex = turn room"
      "shotCoords msg = Some (x, y)" "otherIndex pIndex < length (players room)"
      "grid (players room ! otherIndex pIndex) = Some g" "cellAt g x y = Some cell"
      "cell \<noteq> Miss" "cell \<noteq> Hit" "ships (players room ! otherIndex pIndex) = Some ss"
      "(oc, rooms', out) = resolveShot rid room pIndex (otherIndex pIndex) g cell x y rooms"
    by blast
  have w: "ws (players room ! pIndex) = c" using findRoom_Some [OF f(3)] by simp
  show ?thesis
    using f(1-12) f(13) [unfolded resolveShot_Some [OF f(12)]] w
    by (simp add: Let_def)
qed

lemma onMessage_distinct:
  assumes "onMessage E c raw rooms = (oc, rooms', out)" and "distinct (map fst rooms)"
  shows "distinct (map fst rooms')"
proof (cases raw)
  case None
  then show ?thesis using assms by (auto simp: onMessage_def)
next
  case (Some msg)
  show ?thesis
  proof (cases "msg \<noteq> JNull \<and> truthy (propOf msg ''type'')")
    case False
    then show ?thesis using assms Some by (auto simp: onMessage_def split: if_splits)
  next
    case True
    then have d: "onMessage E c (Some msg) rooms =
     (if propOf msg ''type'' = Some (JStr ''create_room'') then createRoom E c rooms
      else if propOf msg ''type'' = Some (JStr ''join_room'') then joinRoom E c msg rooms
      else if propOf msg ''type'' = Some (JStr ''place_ready'') then placeReady c msg (findRoom c rooms) rooms
      else if propOf msg ''type'' = Some (JStr ''shot'') then shot c msg (findRoom c rooms) rooms
      else (Returned, rooms, [(c, Error ''Unknown message type'')]))"
      using onMessage_typed by blast
    consider (cr) "createRoom E c rooms = (oc, rooms', out)"
      | (jn) "joinRoom E c msg rooms = (oc, rooms', out)"
      | (pl) "placeReady c msg (findRoom c rooms) rooms = (oc, rooms', out)"
      | (sh) "shot c msg (findRoom c rooms) rooms = (oc, rooms', out)"
      | (un) "rooms' = rooms"
      using assms(1) Some d by (auto split: if_splits)
    then show ?thesis
    proof cases
      case cr
      then show ?thesis using createRoom_out assms(2) distinct_roomsSet by blast
    next
      case jn
      from joinRoom_cases [OF this] show ?thesis using assms(2) distinct_roomsSet by auto
    next
      case pl
      from placeReady_cases [OF this] show ?thesis using assms(2) distinct_roomsSet by auto
    next
      case sh
      from shot_cases [OF this] show ?thesis
        using assms(2) distinct_roomsSet
        by (auto simp: resolveShot_def Let_def split: option.splits if_splits)
    next
      case un
      then show ?thesis using assms(2) by simp
    qed
  qed
qed

lemma onMessage_outcomes:
  assumes r: "onMessage E c raw rooms = (oc, rooms', out)"
  shows "(oc = Returned \<and> rooms' = rooms \<and> \<not> typeless raw \<and> (\<exists>e. out = [(c, Error e)])) \<or>
    (oc = Returned \<and> rooms' = rooms \<and> typeless raw \<and> out = []) \<or>
    (oc = TypeError \<and> (\<forall>(a, m)\<in>set out. \<forall>e. m \<noteq> Error e)) \<or>
    (oc = Returned \<and> accepted out \<and> (\<forall>(a, m)\<in>set out. \<forall>e. m \<noteq> Error e))"
proof (cases raw)
  case None
  then show ?thesis using r by (auto simp: onMessage_def typeless_def)
next
  case (Some msg)
  show ?thesis
  proof (cases "msg \<noteq> JNull \<and> truthy (propOf msg ''type'')")
    case False
    then show ?thesis using r Some by (auto simp: onMessage_def typeless_def split: if_splits)
  next
    case True
    then have tl: "\<not> typeless raw" by (simp add: Some typeless_def)
    from True have d: "onMessage E c (Some msg) rooms =
     (if propOf msg ''type'' = Some (JStr ''create_room'') then createRoom E c rooms
      else if propOf msg ''type'' = Some (JStr ''join_room'') then joinRoom E c msg rooms
      else if propOf msg ''type'' = Some (JStr ''place_ready'') then placeReady c msg (findRoom c rooms) rooms
      else if propOf msg ''type'' = Some (JStr ''shot'') then shot c msg (findRoom c rooms) rooms
      else (Returned, rooms, [(c, Error ''Unknown message type'')]))"
      using onMessage_typed by blast
    consider (cr) "createRoom E c rooms = (oc, rooms', out)"
      | (jn) "joinRoom E c msg rooms = (oc, rooms', out)"
      | (pl) "placeReady c msg (findRoom c rooms) rooms = (oc, rooms', out)"
      | (sh) "shot c msg (findRoom c rooms) rooms = (oc, rooms', out)"
      | (un) "oc = Returned" "rooms' = rooms" "out = [(c, Error ''Unknown message type'')]"
      using r [unfolded Some d] by (cases "propOf msg ''type'' = Some (JStr ''create_room'')";
        cases "propOf msg ''type'' = Some (JStr ''join_room'')";
        cases "propOf msg ''type'' = Some (JStr ''place_ready'')";
        cases "propOf msg ''type'' = Some (JStr ''shot'')"; simp)
    then show ?thesis
    proof cases
      case cr
      from createRoom_out [OF this] show ?thesis by (simp add: accepted_def isSuccess_def)
    next
      case jn
      from joinRoom_cases [OF this] consider
        (e) "oc = Returned" "rooms' = rooms" "\<exists>e. out = [(c, Error e)]"
        | (ok) "oc = Returned \<longrightarrow> (\<exists>a. (a, RoomJoined (roomIdOf E msg) 2) \<in> set out)"
            "\<forall>(a, m)\<in>set out. \<not> isShotMsg m \<and> (\<forall>e. m \<noteq> Error e)"
        by blast
      then show ?thesis
      proof cases
        case e
        then show ?thesis using tl by blast
      next
        case ok
        have "oc = Returned \<Longrightarrow> accepted out"
          using ok(1) by (force simp: accepted_def list_ex_iff isSuccess_def)
        then show ?thesis using ok(2) by (cases oc) auto
      qed
    next
      case pl
      from placeReady_cases [OF this] consider
        (e) "oc = Returned" "rooms' = rooms" "\<exists>e. out = [(c, Error e)]"
        | (t) "oc = TypeError" "out = []"
        | (ok) "oc = Returned" "(c, ReadyOk) \<in> set out"
            "\<forall>(a, m)\<in>set out. \<not> isShotMsg m \<and> (\<forall>e. m \<noteq> Error e)"
        by blast
      then show ?thesis
      proof cases
        case e
        then show ?thesis using tl by blast
      next
        case t
        then show ?thesis by simp
      next
        case ok
        have "accepted out" using ok(2) by (force simp: accepted_def list_ex_iff isSuccess_def)
        then show ?thesis using ok(1,3) by auto
      qed
    next
      case sh
      from shot_cases [OF this] consider
        (e) "\<exists>e. (oc, rooms', out) = (Returned, rooms, [(c, Error e)])"
        | (t) "(oc, rooms', out) = (TypeError, rooms, [])"
        | (ok) "\<exists>rid room pIndex x y g cell.
             (oc, rooms', out) = resolveShot rid room pIndex (otherIndex pIndex) g cell x y rooms"
        by blast
      then show ?thesis
      proof cases
        case e
        then show ?thesis using tl by auto
      next
        case t
        then show ?thesis by simp
      next
        case ok
        then obtain rid room pIndex x y g cell where
          e: "(oc, rooms', out) = resolveShot rid room pIndex (otherIndex pIndex) g cell x y rooms"
          by blast
        show ?thesis
        proof (cases "ships (players room ! otherIndex pIndex)")
          case None
          from resolveShot_None [OF this, of rid pIndex g cell x y rooms] e show ?thesis by simp
        next
          case (Some ss)
          from resolveShot_Some [OF this, of rid pIndex g cell x y rooms] e
          have o: "oc = Returned" and out: "out =
             (let g' = shotGrid g cell x y; hit = (cell = Ship);
                  info = (if hit then findSunk g' ss x y else (False, None));
                  win = allShipsSunk g' ss
              in [(ws (players room ! pIndex), ShotResult x y hit (fst info) (snd info) win),
                  (ws (players room ! otherIndex pIndex), GotShot x y hit (fst info) (snd info) win)] @
                 broadcast (shotRoom room (otherIndex pIndex) g cell x y)
                   (if win then GameOver (pIndex + 1)
                    else Turn (turn (shotRoom room (otherIndex pIndex) g cell x y) + 1)))"
            by simp_all
          have "accepted out" unfolding out by (simp add: accepted_def isSuccess_def Let_def)
          moreover have "\<forall>(a, m)\<in>set out. \<forall>e. m \<noteq> Error e"
            unfolding out by (auto simp: Let_def dest!: broadcast_msgs split: if_splits)
          ultimately show ?thesis using o by simp
        qed
      qed
    next
      case un
      then show ?thesis using tl by simp
    qed
  qed
qed

lemma accepted_no_error: "accepted [(c, Error e)] = False"
  by (simp add: accepted_def isSuccess_def)

lemma cellAt_setCell:
  "cellAt (setCell g x y v) x' y' =
     (if y' < length g \<and> x' < length (g ! y')
      then Some (if x' = x \<and> y' = y then v else g ! y' ! x') else None)"
proof (cases "y' = y")
  case True
  then show ?thesis by (cases "y < length g") (auto simp: cellAt_def setCell_def nth_list_update)
next
  case False
  then show ?thesis by (auto simp: cellAt_def setCell_def nth_list_update)
qed

lemma cellStep_shotGrid:
  assumes "cellAt g x y = Some cell" and "cell \<noteq> Miss" and "cell \<noteq> Hit"
  shows "cellStep (cellAt g x' y') (cellAt (shotGrid g cell x y) x' y')"
proof -
  have "cell = Ship \<or> cell = Empty" using assms(2,3) by (cases cell) auto
  then show ?thesis
    using assms(1) unfolding shotGrid_def cellAt_setCell cellStep_def
    by (auto simp: cellAt_def split: if_splits)
qed

lemma shotCoords_ints:
  "shotCoords msg = Some (x, y) \<Longrightarrow>
   intOf (propOf msg ''x'') = Some (int x) \<and> intOf (propOf msg ''y'') = Some (int y)"
  by (auto simp: shotCoords_def split: option.splits if_splits)

lemma cellAt_shotGrid:
  assumes "cellAt g x y = Some cell"
  shows "cellAt (shotGrid g cell x y) x' y' =
     (if x' = x \<and> y' = y then Some (if cell = Ship then Hit else Miss) else cellAt g x' y')"
  using assms unfolding shotGrid_def cellAt_setCell
  by (auto simp: cellAt_def split: if_splits)

section \<open>Reachable stores, and where the handler raises\<close>

lemma list_all_roomsSet:
  "list_all (\<lambda>kr. P (snd kr)) rooms \<Longrightarrow> P v \<Longrightarrow> list_all (\<lambda>kr. P (snd kr)) (roomsSet k v rooms)"
  by (induction rooms) auto

lemma storeOK_roomsSet: "storeOK rooms \<Longrightarrow> roomOK v \<Longrightarrow> storeOK (roomsSet k v rooms)"
  by (simp add: storeOK_def distinct_roomsSet list_all_roomsSet)

lemma storeOK_map_of: "storeOK rooms \<Longrightarrow> map_of rooms k = Some r \<Longrightarrow> roomOK r"
  by (auto simp: storeOK_def list_all_iff dest!: map_of_SomeD)

lemma storeOK_findRoom: "storeOK rooms \<Longrightarrow> findRoom c rooms = Some (rid, r, i) \<Longrightarrow> roomOK r"
  using findRoom_Some [of c rooms rid r i] by (auto simp: storeOK_def list_all_iff)

lemma slotOK_newPlayer: "slotOK (newPlayer E c)"
  by (simp add: slotOK_def newPlayer_def)

lemma validatePlacement_gridOK: "validatePlacement p = Accept (g, f) \<Longrightarrow> gridOK g"
  unfolding validatePlacement_iff by (simp add: foldl_written_ok emptyGrid_ok)

lemma list_all_update: "list_all P xs \<Longrightarrow> P v \<Longrightarrow> list_all P (xs[i := v])"
  by (auto simp: list_all_iff dest!: subsetD [OF set_update_subset_insert])

lemma roomOK_placedRoom: "roomOK room \<Longrightarrow> gridOK g \<Longrightarrow> roomOK (placedRoom room pIndex g ss)"
  by (auto simp: roomOK_def players_placedRoom slotOK_def intro!: list_all_update)

lemma roomOK_shotRoom:
  assumes "roomOK room" "d < length (players room)" "grid (players room ! d) = Some g"
  shows "roomOK (shotRoom room d g cell x y)"
proof -
  have "slotOK (players room ! d)" using assms(1,2) by (simp add: roomOK_def list_all_length)
  then have "slotOK ((players room ! d)\<lparr>grid := Some (shotGrid g cell x y)\<rparr>)"
    using assms(3) by (simp add: slotOK_def shotGrid_def gridOK_setCell)
  then show ?thesis using assms(1) by (auto simp: roomOK_def players_shotRoom intro!: list_all_update)
qed

lemma onMessage_storeOK:
  assumes r: "onMessage E c raw rooms = (oc, rooms', out)" and ok: "storeOK rooms"
  shows "storeOK rooms'"
proof (cases raw)
  case None
  then show ?thesis using r ok by (auto simp: onMessage_def)
next
  case (Some msg)
  show ?thesis
  proof (cases "msg \<noteq> JNull \<and> truthy (propOf msg ''type'')")
    case False
    then show ?thesis using r ok Some by (auto simp: onMessage_def split: if_splits)
  next
    case True
    then have dd: "onMessage E c (Some msg) rooms =
     (if propOf msg ''type'' = Some (JStr ''create_room'') then createRoom E c rooms
      else if propOf msg ''type'' = Some (JStr ''join_room'') then joinRoom E c msg rooms
      else if propOf msg ''type'' = Some (JStr ''place_ready'') then placeReady c msg (findRoom c rooms) rooms
      else if propOf msg ''type'' = Some (JStr ''shot'') then shot c msg (findRoom c rooms) rooms
      else (Returned, rooms, [(c, Error ''Unknown message type'')]))"
      using onMessage_typed by blast
    consider (cr) "createRoom E c rooms = (oc, rooms', out)"
      | (jn) "joinRoom E c msg rooms = (oc, rooms', out)"
      | (pl) "placeReady c msg (findRoom c rooms) rooms = (oc, rooms', out)"
      | (sh) "shot c msg (findRoom c rooms) rooms = (oc, rooms', out)"
      | (un) "rooms' = rooms"
      using r [unfolded Some dd] by (cases "propOf msg ''type'' = Some (JStr ''create_room'')";
        cases "propOf msg ''type'' = Some (JStr ''join_room'')";
        cases "propOf msg ''type'' = Some (JStr ''place_ready'')";
        cases "propOf msg ''type'' = Some (JStr ''shot'')"; simp)
    then show ?thesis
    proof cases
      case cr
      have "roomOK \<lparr>players = [newPlayer E c], turn = 0, started = False\<rparr>"
        by (simp add: roomOK_def slotOK_newPlayer)
      then show ?thesis using createRoom_out [OF cr] ok storeOK_roomsSet by simp
    next
      case jn
      from joinRoom_cases [OF jn] consider
        (e) "rooms' = rooms"
        | (k) r0 where "map_of rooms (roomIdOf E msg) = Some r0"
            "rooms' = roomsSet (roomIdOf E msg) (r0\<lparr>players := players r0 @ [newPlayer E c]\<rparr>) rooms"
        by blast
      then show ?thesis
      proof cases
        case e
        then show ?thesis using ok by simp
      next
        case k
        have "roomOK r0" using storeOK_map_of [OF ok k(1)] .
        then have "roomOK (r0\<lparr>players := players r0 @ [newPlayer E c]\<rparr>)"
          by (simp add: roomOK_def slotOK_newPlayer)
        then show ?thesis using k(2) ok storeOK_roomsSet by simp
      qed
    next
      case pl
      from placeReady_cases [OF pl] consider
        (e) "rooms' = rooms"
        | (k) prid proom pIndex g2 ss2 where "findRoom c rooms = Some (prid, proom, pIndex)"
            "validatePlacement (propOf msg ''placement'') = Accept (g2, ss2)"
            "rooms' = roomsSet prid (placedRoom proom pIndex g2 ss2) rooms"
        by blast
      then show ?thesis
      proof cases
        case e
        then show ?thesis using ok by simp
      next
        case k
        have "roomOK (placedRoom proom pIndex g2 ss2)"
          using storeOK_findRoom [OF ok k(1)] validatePlacement_gridOK [OF k(2)]
          by (rule roomOK_placedRoom)
        then show ?thesis using k(3) ok storeOK_roomsSet by simp
      qed
    next
      case sh
      from shot_cases [OF sh] consider
        (e) "rooms' = rooms"
        | (k) srid sroom pIndex x y g1 cell where
            "findRoom c rooms = Some (srid, sroom, pIndex)"
            "otherIndex pIndex < length (players sroom)"
            "grid (players sroom ! otherIndex pIndex) = Some g1"
            "(oc, rooms', out) = resolveShot srid sroom pIndex (otherIndex pIndex) g1 cell x y rooms"
        by auto
      then show ?thesis
      proof cases
        case e
        then show ?thesis using ok by simp
      next
        case k
        have "roomOK (shotRoom sroom (otherIndex pIndex) g1 cell x y)"
          using storeOK_findRoom [OF ok k(1)] k(2,3) by (rule roomOK_shotRoom)
        then show ?thesis
          using resolveShot_store [OF k(4) [symmetric]] ok storeOK_roomsSet by simp
      qed
    next
      case un
      then show ?thesis using ok by simp
    qed
  qed
qed

lemma onClose_keys: "onClose c rooms = (rooms', out) \<Longrightarrow> set (map fst rooms') \<subseteq> set (map fst rooms)"
proof (induction rooms arbitrary: rooms' out)
  case Nil
  then show ?case by simp
next
  case (Cons a rooms)
  obtain rid r where a: "a = (rid, r)" by (cases a) auto
  show ?case
  proof (cases "findIndex (\<lambda>p. ws p = c) (players r)")
    case None
    obtain rest' out' where o: "onClose c rooms = (rest', out')" by (cases "onClose c rooms") auto
    then have "rooms' = (rid, r) # rest'" using Cons.prems a None by simp
    then show ?thesis using Cons.IH [OF o] a by auto
  next
    case (Some idx)
    then show ?thesis using Cons.prems a by (auto simp: Let_def split: if_splits)
  qed
qed

lemma onClose_storeOK: "onClose c rooms = (rooms', out) \<Longrightarrow> storeOK rooms \<Longrightarrow> storeOK rooms'"
proof (induction rooms arbitrary: rooms' out)
  case Nil
  then show ?case by simp
next
  case (Cons a rooms)
  obtain rid r where a: "a = (rid, r)" by (cases a) auto
  have tl: "storeOK rooms" using Cons.prems(2) by (simp add: storeOK_def)
  show ?case
  proof (cases "findIndex (\<lambda>p. ws p = c) (players r)")
    case None
    obtain rest' out' where o: "onClose c rooms = (rest', out')" by (cases "onClose c rooms") auto
    then have e: "rooms' = (rid, r) # rest'" using Cons.prems a None by simp
    have "storeOK rest'" using Cons.IH [OF o tl] .
    moreover have "rid \<notin> set (map fst rest')"
      using onClose_keys [OF o] Cons.prems(2) a by (auto simp: storeOK_def)
    moreover have "roomOK r" using Cons.prems(2) a by (simp add: storeOK_def)
    ultimately show ?thesis using e by (simp add: storeOK_def)
  next
    case (Some idx)
    let ?ps = "take idx (players r) @ drop (Suc idx) (players r)"
    have "list_all slotOK (players r)" using Cons.prems(2) a by (simp add: storeOK_def roomOK_def)
    then have "list_all slotOK ?ps"
      by (auto simp: list_all_iff dest: in_set_takeD in_set_dropD)
    then have "?ps \<noteq> [] \<Longrightarrow> roomOK (r\<lparr>players := ?ps\<rparr>)" by (simp add: roomOK_def)
    then show ?thesis
      using Cons.prems a Some tl by (auto simp: Let_def storeOK_def split: if_splits)
  qed
qed

lemma step_storeOK: "step e rooms = (oc, rooms', out) \<Longrightarrow> storeOK rooms \<Longrightarrow> storeOK rooms'"
proof (cases e)
  case (Opened c)
  then show "step e rooms = (oc, rooms', out) \<Longrightarrow> storeOK rooms \<Longrightarrow> storeOK rooms'" by auto
next
  case (Message E c raw)
  then show "step e rooms = (oc, rooms', out) \<Longrightarrow> storeOK rooms \<Longrightarrow> storeOK rooms'"
    using onMessage_storeOK by auto
next
  case (Closed c)
  then show "step e rooms = (oc, rooms', out) \<Longrightarrow> storeOK rooms \<Longrightarrow> storeOK rooms'"
    using onClose_storeOK by (auto split: prod.splits)
qed

lemma run_storeOK: "run es rooms = (oc, rooms', out) \<Longrightarrow> storeOK rooms \<Longrightarrow> storeOK rooms'"
proof (induction es arbitrary: rooms oc rooms' out)
  case Nil
  then show ?case by simp
next
  case (Cons e es)
  obtain oc1 rooms1 out1 where s: "step e rooms = (oc1, rooms1, out1)" by (cases "step e rooms") auto
  have ok1: "storeOK rooms1" using step_storeOK [OF s Cons.prems(2)] .
  show ?case
  proof (cases oc1)
    case TypeError
    then show ?thesis using Cons.prems(1) s ok1 by simp
  next
    case Returned
    obtain oc2 rooms2 out2 where t: "run es rooms1 = (oc2, rooms2, out2)" by (cases "run es rooms1") auto
    then have "rooms' = rooms2" using Cons.prems(1) s Returned by simp
    then show ?thesis using Cons.IH [OF t ok1] by simp
  qed
qed

text \<open>
  Every store a run reaches from the empty map satisfies \<open>storeOK\<close>; in particular its
  tokens are distinct.
\<close>

lemma reachable_storeOK: "run es [] = (oc, rooms, out) \<Longrightarrow> storeOK rooms"
  using run_storeOK [of es "[]" oc rooms out] by (simp add: storeOK_def)

lemma joinRoom_TypeError:
  "joinRoom E c msg rooms = (TypeError, rooms', out) \<Longrightarrow>
   \<exists>r. map_of rooms (roomIdOf E msg) = Some r \<and> players r = []"
  by (auto simp: joinRoom_def Let_def split: option.splits if_splits)

lemma placeReady_TypeError:
  "placeReady c msg found rooms = (TypeError, rooms', out) \<Longrightarrow>
   rooms' = rooms \<and> out = [] \<and> validatePlacement (propOf msg ''placement'') = Throw"
  by (auto simp: placeReady_def Let_def split: option.splits if_splits vres.splits prod.splits)

lemma shotCoords_range: "shotCoords msg = Some (x, y) \<Longrightarrow> x < SIZE \<and> y < SIZE"
  by (auto simp: shotCoords_def SIZE_def split: option.splits if_splits)

lemma cellAt_gridOK: "gridOK g \<Longrightarrow> x < SIZE \<Longrightarrow> y < SIZE \<Longrightarrow> cellAt g x y \<noteq> None"
  using gridOK_nth [of g y] by (simp add: cellAt_def gridOK_def)

lemma shot_TypeError:
  assumes "shot c msg found rooms = (TypeError, rooms', out)"
  shows "\<exists>rid room pIndex x y. found = Some (rid, room, pIndex) \<and> started room \<and> pIndex = turn room \<and>
     shotCoords msg = Some (x, y) \<and>
     ((rooms' = rooms \<and> out = [] \<and>
        (length (players room) \<le> otherIndex pIndex \<or> grid (players room ! otherIndex pIndex) = None)) \<or>
      (\<exists>g. otherIndex pIndex < length (players room) \<and> grid (players room ! otherIndex pIndex) = Some g \<and>
         (cellAt g x y = None \<or> ships (players room ! otherIndex pIndex) = None)))"
proof (cases found)
  case None
  then show ?thesis using assms by (simp add: shot_def)
next
  case (Some t)
  then obtain rid room pIndex where f: "found = Some (rid, room, pIndex)" by (cases t) auto
  have st: "started room" using assms f by (auto simp: shot_def split: if_splits)
  have tn: "pIndex = turn room" using assms f st by (auto simp: shot_def split: if_splits)
  have "shotCoords msg \<noteq> None"
  proof
    assume "shotCoords msg = None"
    then have "shot c msg found rooms = (Returned, rooms, [(c, Error ''Invalid shot coords'')])"
      using f st tn by (simp add: shot_def)
    then show False using assms by simp
  qed
  then obtain x y where xy: "shotCoords msg = Some (x, y)" by auto
  show ?thesis
  proof (cases "length (players room) \<le> otherIndex pIndex")
    case True
    then have "rooms' = rooms \<and> out = []" using assms f st tn xy by (simp add: shot_def)
    then show ?thesis using f st tn xy True by blast
  next
    case False
    show ?thesis
    proof (cases "grid (players room ! otherIndex pIndex)")
      case None
      then have "rooms' = rooms \<and> out = []" using assms f st tn xy False by (simp add: shot_def)
      then show ?thesis using f st tn xy None by blast
    next
      case (Some g)
      show ?thesis
      proof (cases "cellAt g x y")
        case None
        then show ?thesis using f st tn xy False Some by auto
      next
        case (Some cell)
        have e: "shot c msg found rooms =
            (if cell = Miss \<or> cell = Hit then (Returned, rooms, [(c, Error ''Already shot there'')])
             else resolveShot rid room pIndex (otherIndex pIndex) g cell x y rooms)"
          using f st tn xy False \<open>grid (players room ! otherIndex pIndex) = Some g\<close> Some
          by (simp add: shot_def)
        have r: "resolveShot rid room pIndex (otherIndex pIndex) g cell x y rooms = (TypeError, rooms', out)"
          using assms e by (auto split: if_splits)
        have "ships (players room ! otherIndex pIndex) = None"
        proof (cases "ships (players room ! otherIndex pIndex)")
          case None
          then show ?thesis .
        next
          case (Some ss)
          from resolveShot_Some [OF this, of rid pIndex g cell x y rooms] r show ?thesis by simp
        qed
        then show ?thesis
          using f st tn xy False \<open>grid (players room ! otherIndex pIndex) = Some g\<close> by auto
      qed
    qed
  qed
qed

text \<open>
  On such a store the message handler raises in three situations only, and then it has
  sent nothing and changed nothing: the message is \<^verbatim>\<open>null\<close>; the validator raises on
  the placement of a \<^verbatim>\<open>place_ready\<close> (a \<^verbatim>\<open>null\<close> among the ships or among the cells of a
  ship); a shot with valid coordinates comes from the turn holder of a started room
  whose opponent slot is missing or has no grid yet. The reads outside a grid and the
  loops over a missing fleet, which the model of \<open>shot\<close> provides for, do not occur.
\<close>

lemma typeError_origins:
  assumes r: "onMessage E c raw rooms = (TypeError, rooms', out)" and ok: "storeOK rooms"
  shows "rooms' = rooms \<and> out = [] \<and>
    (raw = Some JNull \<or>
     (\<exists>msg. raw = Some msg \<and> propOf msg ''type'' = Some (JStr ''place_ready'') \<and>
        validatePlacement (propOf msg ''placement'') = Throw) \<or>
     (\<exists>msg rid room pIndex. raw = Some msg \<and> propOf msg ''type'' = Some (JStr ''shot'') \<and>
        findRoom c rooms = Some (rid, room, pIndex) \<and> started room \<and> pIndex = turn room \<and>
        shotCoords msg \<noteq> None \<and>
        (length (players room) \<le> otherIndex pIndex \<or> grid (players room ! otherIndex pIndex) = None)))"
proof (cases raw)
  case None
  then show ?thesis using r by (auto simp: onMessage_def)
next
  case (Some msg)
  show ?thesis
  proof (cases "msg = JNull")
    case True
    then show ?thesis using r Some by (auto simp: onMessage_def)
  next
    case False
    then have t: "truthy (propOf msg ''type'')" using r Some by (auto simp: onMessage_def split: if_splits)
    note dd = onMessage_typed [OF False t, of E c rooms]
    consider (cr) "createRoom E c rooms = (TypeError, rooms', out)"
      | (jn) "joinRoom E c msg rooms = (TypeError, rooms', out)"
      | (pl) "propOf msg ''type'' = Some (JStr ''place_ready'')"
             "placeReady c msg (findRoom c rooms) rooms = (TypeError, rooms', out)"
      | (sh) "propOf msg ''type'' = Some (JStr ''shot'')"
             "shot c msg (findRoom c rooms) rooms = (TypeError, rooms', out)"
      using r [unfolded Some dd] by (cases "propOf msg ''type'' = Some (JStr ''create_room'')";
        cases "propOf msg ''type'' = Some (JStr ''join_room'')";
        cases "propOf msg ''type'' = Some (JStr ''place_ready'')";
        cases "propOf msg ''type'' = Some (JStr ''shot'')"; simp)
    then show ?thesis
    proof cases
      case cr
      from createRoom_out [OF cr] show ?thesis by simp
    next
      case jn
      from joinRoom_TypeError [OF jn] obtain r0 where
        "map_of rooms (roomIdOf E msg) = Some r0" "players r0 = []" by blast
      then show ?thesis using storeOK_map_of [OF ok] by (auto simp: roomOK_def)
    next
      case pl
      from placeReady_TypeError [OF pl(2)]
      have "rooms' = rooms" "out = []" "validatePlacement (propOf msg ''placement'') = Throw"
        by simp_all
      moreover have "\<exists>m. raw = Some m \<and> propOf m ''type'' = Some (JStr ''place_ready'') \<and>
        validatePlacement (propOf m ''placement'') = Throw"
        using Some pl(1) calculation(3) by blast
      ultimately show ?thesis by blast
    next
      case sh
      from shot_TypeError [OF sh(2)] obtain rid room pIndex x y where
        f: "findRoom c rooms = Some (rid, room, pIndex)" "started room" "pIndex = turn room"
          "shotCoords msg = Some (x, y)"
        and alt: "(rooms' = rooms \<and> out = [] \<and>
            (length (players room) \<le> otherIndex pIndex \<or> grid (players room ! otherIndex pIndex) = None)) \<or>
          (\<exists>g. otherIndex pIndex < length (players room) \<and> grid (players room ! otherIndex pIndex) = Some g \<and>
             (cellAt g x y = None \<or> ships (players room ! otherIndex pIndex) = None))"
        by blast
      have no: "\<not> (\<exists>g. otherIndex pIndex < length (players room) \<and>
          grid (players room ! otherIndex pIndex) = Some g \<and>
          (cellAt g x y = None \<or> ships (players room ! otherIndex pIndex) = None))"
      proof
        assume "\<exists>g. otherIndex pIndex < length (players room) \<and>
          grid (players room ! otherIndex pIndex) = Some g \<and>
          (cellAt g x y = None \<or> ships (players room ! otherIndex pIndex) = None)"
        then obtain g where g: "otherIndex pIndex < length (players room)"
          "grid (players room ! otherIndex pIndex) = Some g"
          "cellAt g x y = None \<or> ships (players room ! otherIndex pIndex) = None" by blast
        have "slotOK (players room ! otherIndex pIndex)"
          using storeOK_findRoom [OF ok f(1)] g(1) by (simp add: roomOK_def list_all_length)
        then have go: "gridOK g" and sh': "ships (players room ! otherIndex pIndex) \<noteq> None"
          using g(2) by (simp_all add: slotOK_def)
        have "cellAt g x y \<noteq> None"
          using cellAt_gridOK [OF go] shotCoords_range [OF f(4)] by simp
        then show False using g(3) sh' by simp
      qed
      with alt have "rooms' = rooms \<and> out = [] \<and>
          (length (players room) \<le> otherIndex pIndex \<or> grid (players room ! otherIndex pIndex) = None)"
        by argo
      moreover have "\<exists>m rid room pIndex. raw = Some m \<and> propOf m ''type'' = Some (JStr ''shot'') \<and>
        findRoom c rooms = Some (rid, room, pIndex) \<and> started room \<and> pIndex = turn room \<and>
        shotCoords m \<noteq> None \<and>
        (length (players room) \<le> otherIndex pIndex \<or> grid (players room ! otherIndex pIndex) = None)"
        using Some sh(1) f calculation by (intro exI [of _ msg] exI [of _ rid] exI [of _ room] exI [of _ pIndex]) simp
      ultimately show ?thesis by blast
    qed
  qed
qed

section \<open>Shots\<close>

text \<open>
  Claim C2. Whenever the handler reports a resolved shot, the message was a
  \<^verbatim>\<open>shot\<close> at \<open>(x, y)\<close> from the turn holder of a started room, and the defender is
  the other of the two slots. The grid of the defender in the store afterwards is its
  grid before with exactly the cell \<open>(x, y)\<close> written, \<open>Hit\<close> when it held a ship and
  \<open>Miss\<close> when it was empty; the fleet is unchanged. The flag \<open>win\<close> sent to the
  attacker in \<^verbatim>\<open>shot_result\<close> and the flag \<open>lose\<close> sent to the defender in
  \<^verbatim>\<open>got_shot\<close> are the same, and it is true exactly when every cell of every ship of
  the defender is \<open>Hit\<close> in that grid.
\<close>

theorem win_flag_iff_fleet_destroyed:
  assumes "onMessage E c raw rooms = (oc, rooms', out)"
    and "(a, ShotResult x y hit sunk sz win) \<in> set out \<or> (a, GotShot x y hit sunk sz win) \<in> set out"
  shows "\<exists>msg rid room pIndex d g ss room' g'.
     raw = Some msg \<and> propOf msg ''type'' = Some (JStr ''shot'') \<and>
     intOf (propOf msg ''x'') = Some (int x) \<and> intOf (propOf msg ''y'') = Some (int y) \<and>
     findRoom c rooms = Some (rid, room, pIndex) \<and> started room \<and> turn room = pIndex \<and>
     d \<noteq> pIndex \<and> d < 2 \<and> d < length (players room) \<and>
     grid (players room ! d) = Some g \<and> ships (players room ! d) = Some ss \<and>
     (cellAt g x y = Some Ship \<or> cellAt g x y = Some Empty) \<and>
     (hit \<longleftrightarrow> cellAt g x y = Some Ship) \<and>
     map_of rooms' rid = Some room' \<and>
     ws (players room' ! d) = ws (players room ! d) \<and>
     grid (players room' ! d) = Some g' \<and> ships (players room' ! d) = Some ss \<and>
     (\<forall>x' y'. cellAt g' x' y' =
        (if x' = x \<and> y' = y then Some (if hit then Hit else Miss) else cellAt g x' y')) \<and>
     (c, ShotResult x y hit sunk sz win) \<in> set out \<and>
     (ws (players room ! d), GotShot x y hit sunk sz win) \<in> set out \<and>
     (win \<longleftrightarrow> (\<forall>s\<in>set ss. \<forall>(x', y')\<in>set s. cellAt g' x' y' = Some Hit))"
proof -
  from assms(2) obtain m where m: "(a, m) \<in> set out" "isShotMsg m"
    "m = ShotResult x y hit sunk sz win \<or> m = GotShot x y hit sunk sz win"
    by (auto simp: isShotMsg_def)
  from shot_accepted_shape [OF assms(1) m(1,2)]
  obtain msg rid room pIndex x0 y0 g cell ss h0 info w0 room'
    where f: "raw = Some msg" "propOf msg ''type'' = Some (JStr ''shot'')"
      "findRoom c rooms = Some (rid, room, pIndex)" "started room" "pIndex = turn room"
      "shotCoords msg = Some (x0, y0)"
      "otherIndex pIndex < length (players room)"
      "grid (players room ! otherIndex pIndex) = Some g" "cellAt g x0 y0 = Some cell"
      "cell \<noteq> Miss" "cell \<noteq> Hit"
      "ships (players room ! otherIndex pIndex) = Some ss"
      "h0 = (cell = Ship)"
      "w0 = allShipsSunk (shotGrid g cell x0 y0) ss"
      "room' = shotRoom room (otherIndex pIndex) g cell x0 y0"
      "rooms' = roomsSet rid room' rooms"
      "out = [(c, ShotResult x0 y0 h0 (fst info) (snd info) w0),
            (ws (players room ! otherIndex pIndex), GotShot x0 y0 h0 (fst info) (snd info) w0)] @
           broadcast room' (if w0 then GameOver (pIndex + 1) else Turn (turn room' + 1))"
    by blast
  let ?d = "otherIndex pIndex"
  let ?g' = "shotGrid g cell x0 y0"
  have eq: "x = x0" "y = y0" "hit = h0" "sunk = fst info" "sz = snd info" "win = w0"
    using m(1,3) f(17) by (auto dest!: broadcast_msgs split: if_splits)
  have ce: "cell = Ship \<or> cell = Empty" using f(10,11) by (cases cell) auto
  have p: "players room' ! ?d = (players room ! ?d)\<lparr>grid := Some ?g'\<rparr>"
    using f(7) by (simp add: f(15) players_shotRoom)
  have c1: "intOf (propOf msg ''x'') = Some (int x) \<and> intOf (propOf msg ''y'') = Some (int y)"
    using shotCoords_ints [OF f(6)] eq(1,2) by simp
  have c2: "?d \<noteq> pIndex \<and> ?d < 2" by (simp add: otherIndex_def)
  have c3: "(cellAt g x y = Some Ship \<or> cellAt g x y = Some Empty) \<and> (hit \<longleftrightarrow> cellAt g x y = Some Ship)"
    using ce f(9,13) eq(1,2,3) by auto
  have c4: "map_of rooms' rid = Some room'" by (simp add: f(16) map_of_roomsSet)
  have c5: "ws (players room' ! ?d) = ws (players room ! ?d)"
    "grid (players room' ! ?d) = Some ?g'" "ships (players room' ! ?d) = Some ss"
    using p f(12) by simp_all
  have c6: "\<forall>x' y'. cellAt ?g' x' y' =
        (if x' = x \<and> y' = y then Some (if hit then Hit else Miss) else cellAt g x' y')"
    using cellAt_shotGrid [OF f(9)] eq(1,2,3) f(13) by simp
  have c7: "(c, ShotResult x y hit sunk sz win) \<in> set out"
    "(ws (players room ! ?d), GotShot x y hit sunk sz win) \<in> set out"
    using f(17) eq by simp_all
  have c8: "win \<longleftrightarrow> (\<forall>s\<in>set ss. \<forall>(x', y')\<in>set s. cellAt ?g' x' y' = Some Hit)"
    using eq(6) f(14) allShipsSunk_iff by simp
  have t: "turn room = pIndex" using f(5) by simp
  show ?thesis
    using f(1,2) c1 f(3,4) t c2 f(7,8,12) c3 c4 c5 c6 c7 c8 by blast
qed

text \<open>
  The last of the seventeen shots of connection 1 (slot 0), at (9,8), is reported with
  \<open>win\<close> true, and every cell of the fleet of slot 1 is then \<open>Hit\<close>. After a miss of
  connection 1, the shot of connection 2 (slot 1) at (0,0) hits the grid of slot 0:
  \<open>win\<close> is false and that fleet still has a cell that is not \<open>Hit\<close>; the grid of
  slot 0 is its placement with (0,0) \<open>Hit\<close>, and the grid of slot 1 has only the
  earlier miss at (5,0).
\<close>

theorem win_flag_iff_fleet_destroyed_witness:
  "(1, ShotResult 9 8 True True (Some 2) True)
      \<in> set (snd (snd (onMessage envA 1 (Some (shotMsg 9 8)) stateLastShot))) \<and>
   (\<exists>room' g' ss.
      map_of (fst (snd (onMessage envA 1 (Some (shotMsg 9 8)) stateLastShot))) ''A1B2C3'' = Some room' \<and>
      grid (players room' ! 1) = Some g' \<and> ships (players room' ! 1) = Some ss \<and>
      (\<forall>s\<in>set ss. \<forall>(x', y')\<in>set s. cellAt g' x' y' = Some Hit)) \<and>
   (2, ShotResult 0 0 True False None False)
      \<in> set (snd (snd (onMessage envA 2 (Some (shotMsg 0 0)) stateOneMiss))) \<and>
   (\<exists>room' g' ss.
      map_of (fst (snd (onMessage envA 2 (Some (shotMsg 0 0)) stateOneMiss))) ''A1B2C3'' = Some room' \<and>
      grid (players room' ! 0) = Some g' \<and> ships (players room' ! 0) = Some ss \<and>
      cellAt g' 0 0 = Some Hit \<and>
      \<not> (\<forall>s\<in>set ss. \<forall>(x', y')\<in>set s. cellAt g' x' y' = Some Hit)) \<and>
   (case map_of (fst (snd (onMessage envA 2 (Some (shotMsg 0 0)) stateOneMiss))) ''A1B2C3'' of
      None \<Rightarrow> False
    | Some room' \<Rightarrow>
        map grid (players room') = [Some (setCell gridA 0 0 Hit), Some (setCell gridA 5 0 Miss)])"
proof -
  obtain oc rooms' out where r: "onMessage envA 1 (Some (shotMsg 9 8)) stateLastShot = (oc, rooms', out)"
    by (cases "onMessage envA 1 (Some (shotMsg 9 8)) stateLastShot") auto
  have m: "(1, ShotResult 9 8 True True (Some 2) True)
      \<in> set (snd (snd (onMessage envA 1 (Some (shotMsg 9 8)) stateLastShot)))"
    by code_simp
  then have m': "(1, ShotResult 9 8 True True (Some 2) True) \<in> set out \<or>
      (1, GotShot 9 8 True True (Some 2) True) \<in> set out" using r by simp
  have f: "case findRoom 1 stateLastShot of
             None \<Rightarrow> False | Some (rid, room, p) \<Rightarrow> rid = ''A1B2C3'' \<and> p = 0"
    by code_simp
  from win_flag_iff_fleet_destroyed [OF r m'] obtain rid room pIndex d g ss room' g' where
    w: "findRoom 1 stateLastShot = Some (rid, room, pIndex)" "d \<noteq> pIndex" "d < 2"
      "map_of rooms' rid = Some room'"
      "grid (players room' ! d) = Some g'" "ships (players room' ! d) = Some ss"
      "True \<longleftrightarrow> (\<forall>s\<in>set ss. \<forall>(x', y')\<in>set s. cellAt g' x' y' = Some Hit)"
    by blast
  have "rid = ''A1B2C3''" "pIndex = 0" using f w(1) by simp_all
  then have "d = 1" using w(2,3) by simp
  then have a: "\<exists>room' g' ss.
      map_of rooms' ''A1B2C3'' = Some room' \<and>
      grid (players room' ! 1) = Some g' \<and> ships (players room' ! 1) = Some ss \<and>
      (\<forall>s\<in>set ss. \<forall>(x', y')\<in>set s. cellAt g' x' y' = Some Hit)"
    using w(4,5,6,7) \<open>rid = ''A1B2C3''\<close> by auto
  obtain oc2 rooms2 out2 where r2: "onMessage envA 2 (Some (shotMsg 0 0)) stateOneMiss = (oc2, rooms2, out2)"
    by (cases "onMessage envA 2 (Some (shotMsg 0 0)) stateOneMiss") auto
  have n: "(2, ShotResult 0 0 True False None False)
      \<in> set (snd (snd (onMessage envA 2 (Some (shotMsg 0 0)) stateOneMiss)))"
    by code_simp
  then have n': "(2, ShotResult 0 0 True False None False) \<in> set out2 \<or>
      (2, GotShot 0 0 True False None False) \<in> set out2" using r2 by simp
  have f2: "case findRoom 2 stateOneMiss of
             None \<Rightarrow> False | Some (rid, room, p) \<Rightarrow> rid = ''A1B2C3'' \<and> p = 1"
    by code_simp
  from win_flag_iff_fleet_destroyed [OF r2 n'] obtain rid2 room2 pIndex2 d2 g2 ss2 room2' g2' where
    v: "findRoom 2 stateOneMiss = Some (rid2, room2, pIndex2)" "d2 \<noteq> pIndex2" "d2 < 2"
      "map_of rooms2 rid2 = Some room2'"
      "grid (players room2' ! d2) = Some g2'" "ships (players room2' ! d2) = Some ss2"
      "\<forall>x' y'. cellAt g2' x' y' =
         (if x' = 0 \<and> y' = 0 then Some (if True then Hit else Miss) else cellAt g2 x' y')"
      "False \<longleftrightarrow> (\<forall>s\<in>set ss2. \<forall>(x', y')\<in>set s. cellAt g2' x' y' = Some Hit)"
    by blast
  have i2: "rid2 = ''A1B2C3''" "pIndex2 = 1" using f2 v(1) by simp_all
  then have "d2 = 0" using v(2,3) by simp
  moreover have "cellAt g2' 0 0 = Some Hit" using v(7) by simp
  moreover have "\<not> (\<forall>s\<in>set ss2. \<forall>(x', y')\<in>set s. cellAt g2' x' y' = Some Hit)"
    using v(8) by blast
  ultimately have b: "\<exists>room' g' ss.
      map_of rooms2 ''A1B2C3'' = Some room' \<and>
      grid (players room' ! 0) = Some g' \<and> ships (players room' ! 0) = Some ss \<and>
      cellAt g' 0 0 = Some Hit \<and>
      \<not> (\<forall>s\<in>set ss. \<forall>(x', y')\<in>set s. cellAt g' x' y' = Some Hit)"
    using v(4,5,6) i2(1) by blast
  have e: "case map_of (fst (snd (onMessage envA 2 (Some (shotMsg 0 0)) stateOneMiss))) ''A1B2C3'' of
      None \<Rightarrow> False
    | Some room' \<Rightarrow>
        map grid (players room') = [Some (setCell gridA 0 0 Hit), Some (setCell gridA 5 0 Miss)]"
    by code_simp
  show ?thesis using m n a b r r2 e by simp
qed

text \<open>
  Claim C4. For every accepted shot that does not win, the turn of the room is
  unchanged when the shot is a hit, and when it is a miss the new turn is the other of
  the two slots (an index below 2 that is not the old turn); the new turn holder is
  announced to the sender and to every player of the room. Hence over any streak of
  hits the turn of the room stays what it was.
\<close>

theorem turn_flips_on_miss_only:
  "(\<forall>E c raw rooms oc rooms' out a x y hit sunk sz.
      onMessage E c raw rooms = (oc, rooms', out) \<and>
      (a, ShotResult x y hit sunk sz False) \<in> set out \<longrightarrow>
      (\<exists>rid room pIndex room'.
         findRoom c rooms = Some (rid, room, pIndex) \<and> started room \<and> turn room = pIndex \<and>
         map_of rooms' rid = Some room' \<and>
         (hit \<longrightarrow> turn room' = turn room) \<and>
         (\<not> hit \<longrightarrow> turn room' \<noteq> turn room \<and> turn room' < 2) \<and>
         (c, Turn (turn room' + 1)) \<in> set out \<and>
         (\<forall>p\<in>set (players room'). (ws p, Turn (turn room' + 1)) \<in> set out))) \<and>
   (\<forall>rid ms rooms rooms'.
      distinct (map fst rooms) \<and> hitStreak rid ms rooms = Some rooms' \<longrightarrow>
      turnOf rid rooms' = turnOf rid rooms)"
proof (intro conjI)
  show "\<forall>E c raw rooms oc rooms' out a x y hit sunk sz.
      onMessage E c raw rooms = (oc, rooms', out) \<and>
      (a, ShotResult x y hit sunk sz False) \<in> set out \<longrightarrow>
      (\<exists>rid room pIndex room'.
         findRoom c rooms = Some (rid, room, pIndex) \<and> started room \<and> turn room = pIndex \<and>
         map_of rooms' rid = Some room' \<and>
         (hit \<longrightarrow> turn room' = turn room) \<and>
         (\<not> hit \<longrightarrow> turn room' \<noteq> turn room \<and> turn room' < 2) \<and>
         (c, Turn (turn room' + 1)) \<in> set out \<and>
         (\<forall>p\<in>set (players room'). (ws p, Turn (turn room' + 1)) \<in> set out))"
  proof (intro allI impI, elim conjE)
    fix E c raw rooms oc rooms' out a x y hit sunk sz
    assume r: "onMessage E c raw rooms = (oc, rooms', out)"
      and m: "(a, ShotResult x y hit sunk sz False) \<in> set out"
    have i: "isShotMsg (ShotResult x y hit sunk sz False)" by (simp add: isShotMsg_def)
    from shot_accepted_shape [OF r m i] obtain rid room pIndex x0 y0 g cell ss h0 info w0 room'
      where f: "findRoom c rooms = Some (rid, room, pIndex)" "started room" "pIndex = turn room"
        "ships (players room ! otherIndex pIndex) = Some ss"
        "h0 = (cell = Ship)" "w0 = allShipsSunk (shotGrid g cell x0 y0) ss"
        "room' = shotRoom room (otherIndex pIndex) g cell x0 y0"
        "rooms' = roomsSet rid room' rooms"
        "out = [(c, ShotResult x0 y0 h0 (fst info) (snd info) w0),
              (ws (players room ! otherIndex pIndex), GotShot x0 y0 h0 (fst info) (snd info) w0)] @
             broadcast room' (if w0 then GameOver (pIndex + 1) else Turn (turn room' + 1))"
      by blast
    have eq: "hit = h0 \<and> w0 = False"
      using m f(9) by (auto dest!: broadcast_msgs split: if_splits)
    have t: "turn room' = (if hit then turn room else otherIndex (turn room))"
      using turn_shotRoom [OF f(4), of g cell x0 y0] eq f(5,6) by (simp add: f(7))
    have t1: "hit \<longrightarrow> turn room' = turn room" using t by simp
    have t2: "\<not> hit \<longrightarrow> turn room' \<noteq> turn room \<and> turn room' < 2"
      using t by (simp add: otherIndex_def)
    have l: "pIndex < length (players room)" "ws (players room ! pIndex) = c"
      using findRoom_Some [OF f(1)] by simp_all
    have "length (players room') = length (players room)"
      "ws (players room' ! pIndex) = c"
      using l otherIndex_neq [of pIndex] by (simp_all add: f(7) players_shotRoom)
    then have "(c, Turn (turn room' + 1)) \<in> set (broadcast room' (Turn (turn room' + 1)))"
      using l(1) by (force simp: broadcast_def in_set_conv_nth)
    then have b1: "(c, Turn (turn room' + 1)) \<in> set out" using f(9) eq by simp
    have b2: "\<forall>p\<in>set (players room'). (ws p, Turn (turn room' + 1)) \<in> set out"
      using f(9) eq by (simp add: broadcast_def)
    have s: "map_of rooms' rid = Some room'" by (simp add: f(8) map_of_roomsSet)
    have tr: "turn room = pIndex" using f(3) by simp
    show "\<exists>rid room pIndex room'.
         findRoom c rooms = Some (rid, room, pIndex) \<and> started room \<and> turn room = pIndex \<and>
         map_of rooms' rid = Some room' \<and>
         (hit \<longrightarrow> turn room' = turn room) \<and>
         (\<not> hit \<longrightarrow> turn room' \<noteq> turn room \<and> turn room' < 2) \<and>
         (c, Turn (turn room' + 1)) \<in> set out \<and>
         (\<forall>p\<in>set (players room'). (ws p, Turn (turn room' + 1)) \<in> set out)"
      using f(1,2) tr s t1 t2 b1 b2 by blast
  qed
next
  have "distinct (map fst rooms) \<Longrightarrow> hitStreak rid ms rooms = Some rooms' \<Longrightarrow>
      turnOf rid rooms' = turnOf rid rooms" for rid ms rooms rooms'
  proof (induction ms arbitrary: rooms)
    case Nil
    then show ?case by simp
  next
    case (Cons e ms)
    obtain E c raw where e: "e = (E, c, raw)" by (cases e) auto
    from Cons.prems(2) e obtain room pIndex oc rooms1 out where
      f: "findRoom c rooms = Some (rid, room, pIndex)"
      and r: "onMessage E c raw rooms = (oc, rooms1, out)"
      and h: "list_ex isHit out" and s: "hitStreak rid ms rooms1 = Some rooms'"
      by (auto split: option.splits if_splits prod.splits)
    from h obtain a m where m: "(a, m) \<in> set out" "isHit (a, m)"
      by (auto simp: list_ex_iff)
    then obtain x y sunk sz win where m': "m = ShotResult x y True sunk sz win"
      by (cases m) (auto simp: isHit_def)
    have i: "isShotMsg m" by (simp add: m' isShotMsg_def)
    from shot_accepted_shape [OF r m(1) i] f obtain x0 y0 g cell ss h0 info w0 room'
      where g: "ships (players room ! otherIndex pIndex) = Some ss"
        "h0 = (cell = Ship)"
        "room' = shotRoom room (otherIndex pIndex) g cell x0 y0"
        "rooms1 = roomsSet rid room' rooms"
        "out = [(c, ShotResult x0 y0 h0 (fst info) (snd info) w0),
              (ws (players room ! otherIndex pIndex), GotShot x0 y0 h0 (fst info) (snd info) w0)] @
             broadcast room' (if w0 then GameOver (pIndex + 1) else Turn (turn room' + 1))"
      by auto
    have "h0" using m(1) m' g(5) by (auto dest!: broadcast_msgs split: if_splits)
    then have "turn room' = turn room"
      using turn_shotRoom [OF g(1), of g cell x0 y0] g(2) by (simp add: g(3))
    moreover have "map_of rooms rid = Some room"
      using findRoom_map_of [OF Cons.prems(1) f] .
    ultimately have "turnOf rid rooms1 = turnOf rid rooms"
      by (simp add: turnOf_def g(4) map_of_roomsSet)
    moreover have "distinct (map fst rooms1)" using onMessage_distinct [OF r Cons.prems(1)] .
    ultimately show ?case using Cons.IH [OF _ s] by simp
  qed
  then show "\<forall>rid ms rooms rooms'.
      distinct (map fst rooms) \<and> hitStreak rid ms rooms = Some rooms' \<longrightarrow>
      turnOf rid rooms' = turnOf rid rooms"
    by blast
qed
text \<open>
  Two hits in a row by connection 1 (slot 0) leave the turn at slot 0, and its miss
  at (5,0) passes the turn to slot 1; then two hits in a row by connection 2 (slot 1)
  leave the turn at slot 1, and its miss at (5,0) passes the turn back to slot 0.
\<close>

theorem turn_flips_on_miss_only_witness:
  "(\<exists>rooms'. hitStreak ''A1B2C3'' [(envA, 1, Some (shotMsg 0 0)), (envA, 1, Some (shotMsg 1 0))]
        stateStarted = Some rooms' \<and>
      turnOf ''A1B2C3'' rooms' = Some 0) \<and>
   (\<exists>room'. map_of (fst (snd (onMessage envA 1 (Some (shotMsg 5 0)) stateStarted))) ''A1B2C3'' = Some room' \<and>
      turn room' = 1) \<and>
   (\<exists>rooms'. hitStreak ''A1B2C3'' [(envA, 2, Some (shotMsg 0 0)), (envA, 2, Some (shotMsg 1 0))]
        stateOneMiss = Some rooms' \<and>
      turnOf ''A1B2C3'' rooms' = Some 1) \<and>
   (\<exists>room'. map_of (fst (snd (onMessage envA 2 (Some (shotMsg 5 0)) stateOneMiss))) ''A1B2C3'' = Some room' \<and>
      turn room' = 0)"
proof -
  have d: "distinct (map fst stateStarted)" by code_simp
  have t: "turnOf ''A1B2C3'' stateStarted = Some 0" by code_simp
  have "hitStreak ''A1B2C3'' [(envA, 1, Some (shotMsg 0 0)), (envA, 1, Some (shotMsg 1 0))]
        stateStarted \<noteq> None" by code_simp
  then obtain rooms' where h: "hitStreak ''A1B2C3''
      [(envA, 1, Some (shotMsg 0 0)), (envA, 1, Some (shotMsg 1 0))] stateStarted = Some rooms'"
    by blast
  note streak = turn_flips_on_miss_only [THEN conjunct2, rule_format, OF conjI]
  note single = turn_flips_on_miss_only [THEN conjunct1, rule_format, OF conjI]
  have a: "turnOf ''A1B2C3'' rooms' = Some 0"
    using streak [OF d h] t by simp
  obtain oc rooms1 out where r: "onMessage envA 1 (Some (shotMsg 5 0)) stateStarted = (oc, rooms1, out)"
    by (cases "onMessage envA 1 (Some (shotMsg 5 0)) stateStarted") auto
  have "(1, ShotResult 5 0 False False None False)
      \<in> set (snd (snd (onMessage envA 1 (Some (shotMsg 5 0)) stateStarted)))"
    by code_simp
  then have m: "(1, ShotResult 5 0 False False None False) \<in> set out" using r by simp
  have f: "case findRoom 1 stateStarted of None \<Rightarrow> False | Some (rid, room, p) \<Rightarrow> rid = ''A1B2C3'' \<and> turn room = 0"
    by code_simp
  from single [OF r m] obtain rid room pIndex room' where
    g: "findRoom 1 stateStarted = Some (rid, room, pIndex)" "map_of rooms1 rid = Some room'"
      "\<not> False \<longrightarrow> turn room' \<noteq> turn room \<and> turn room' < 2"
    by blast
  have "rid = ''A1B2C3''" "turn room = 0" using f g(1) by simp_all
  then have b: "map_of rooms1 ''A1B2C3'' = Some room' \<and> turn room' = 1"
    using g(2,3) by auto
  have d2: "distinct (map fst stateOneMiss)" by code_simp
  have t2: "turnOf ''A1B2C3'' stateOneMiss = Some 1" by code_simp
  have "hitStreak ''A1B2C3'' [(envA, 2, Some (shotMsg 0 0)), (envA, 2, Some (shotMsg 1 0))]
        stateOneMiss \<noteq> None" by code_simp
  then obtain rooms2' where h2: "hitStreak ''A1B2C3''
      [(envA, 2, Some (shotMsg 0 0)), (envA, 2, Some (shotMsg 1 0))] stateOneMiss = Some rooms2'"
    by blast
  have a2: "turnOf ''A1B2C3'' rooms2' = Some 1"
    using streak [OF d2 h2] t2 by simp
  obtain oc2 rooms2 out2 where r2: "onMessage envA 2 (Some (shotMsg 5 0)) stateOneMiss = (oc2, rooms2, out2)"
    by (cases "onMessage envA 2 (Some (shotMsg 5 0)) stateOneMiss") auto
  have "(2, ShotResult 5 0 False False None False)
      \<in> set (snd (snd (onMessage envA 2 (Some (shotMsg 5 0)) stateOneMiss)))"
    by code_simp
  then have m2: "(2, ShotResult 5 0 False False None False) \<in> set out2" using r2 by simp
  have f2: "case findRoom 2 stateOneMiss of None \<Rightarrow> False | Some (rid, room, p) \<Rightarrow> rid = ''A1B2C3'' \<and> turn room = 1"
    by code_simp
  from single [OF r2 m2] obtain rid2 room2 pIndex2 room2' where
    g2: "findRoom 2 stateOneMiss = Some (rid2, room2, pIndex2)" "map_of rooms2 rid2 = Some room2'"
      "\<not> False \<longrightarrow> turn room2' \<noteq> turn room2 \<and> turn room2' < 2"
    by blast
  have "rid2 = ''A1B2C3''" "turn room2 = 1" using f2 g2(1) by simp_all
  then have b2: "map_of rooms2 ''A1B2C3'' = Some room2' \<and> turn room2' = 0"
    using g2(2,3) by auto
  show ?thesis using a h b r a2 h2 b2 r2 by auto
qed

text \<open>
  Claim C5. A shot at a cell of the defender that is already \<open>Hit\<close> or \<open>Miss\<close> is
  answered with one error, sent to the attacker only, and the store is exactly what it
  was: "Already shot there" when the game has started and the sender holds the turn,
  and the error of the earlier test otherwise.
\<close>

theorem repeated_shot_rejected:
  assumes "findRoom c rooms = Some (rid, room, pIndex)"
    and "propOf msg ''type'' = Some (JStr ''shot'')"
    and "shotCoords msg = Some (x, y)"
    and "otherIndex pIndex < length (players room)"
    and "grid (players room ! otherIndex pIndex) = Some g"
    and "cellAt g x y = Some Hit \<or> cellAt g x y = Some Miss"
  shows "onMessage E c (Some msg) rooms =
     (Returned, rooms,
      [(c, Error (if \<not> started room then ''Game not started''
                  else if pIndex \<noteq> turn room then ''Not your turn''
                  else ''Already shot there''))])"
proof -
  have n: "msg \<noteq> JNull" using assms(2) by auto
  have t: "truthy (propOf msg ''type'')" using assms(2) by simp
  have "onMessage E c (Some msg) rooms = shot c msg (findRoom c rooms) rooms"
    using onMessage_typed [OF n t] assms(2) by simp
  then show ?thesis using assms by (auto simp: shot_def Let_def)
qed

text \<open>
  Connection 1 repeats its hit at (0,0).
\<close>

theorem repeated_shot_rejected_witness:
  "onMessage envA 1 (Some (shotMsg 0 0)) stateOneHit =
     (Returned, stateOneHit, [(1, Error ''Already shot there'')])"
proof -
  have f: "case findRoom 1 stateOneHit of
             None \<Rightarrow> False
           | Some (rid, room, p) \<Rightarrow>
               started room \<and> p = turn room \<and> otherIndex p < length (players room) \<and>
               (case grid (players room ! otherIndex p) of
                  None \<Rightarrow> False
                | Some g \<Rightarrow> cellAt g 0 0 = Some Hit)"
    by code_simp
  then obtain rid room p g where a: "findRoom 1 stateOneHit = Some (rid, room, p)"
    "started room" "p = turn room" "otherIndex p < length (players room)"
    "grid (players room ! otherIndex p) = Some g" "cellAt g 0 0 = Some Hit"
    by (auto split: option.splits)
  have t: "propOf (shotMsg 0 0) ''type'' = Some (JStr ''shot'')" by (simp add: shotMsg_def)
  have s: "shotCoords (shotMsg 0 0) = Some (0, 0)" by (simp add: shotMsg_def shotCoords_def SIZE_def)
  show ?thesis
    using repeated_shot_rejected [OF a(1) t s a(4) a(5), of envA] a(2,3,6) by simp
qed

text \<open>
  Claim C3. After a shot that wins, no further shot on the room should be accepted.
  The winning shot does send \<^verbatim>\<open>game_over\<close> and no \<^verbatim>\<open>turn\<close>, but the handler leaves
  \<open>started\<close> true and the turn with the winner: after the seventeen hits of the game
  on A1B2C3, the next shot of connection 1, at the empty cell (5,0), is resolved as a
  miss, written into the grid of connection 2 and answered with \<^verbatim>\<open>shot_result\<close>,
  \<^verbatim>\<open>got_shot\<close> and \<^verbatim>\<open>game_over\<close> once more.
\<close>

theorem shot_after_win_accepted:
  "fst (run (setupEvents @ allHits) []) = Returned \<and>
   rev (take 4 (rev (snd (snd (run (setupEvents @ allHits) []))))) =
     [(1, ShotResult 9 8 True True (Some 2) True), (2, GotShot 9 8 True True (Some 2) True),
      (1, GameOver 1), (2, GameOver 1)] \<and>
   onMessage envA 2 (Some (shotMsg 5 0)) stateWon =
     (Returned, stateWon, [(2, Error ''Not your turn'')]) \<and>
   snd (snd (onMessage envA 1 (Some (shotMsg 5 0)) stateWon)) =
     [(1, ShotResult 5 0 False False None True), (2, GotShot 5 0 False False None True),
      (1, GameOver 1), (2, GameOver 1)] \<and>
   fst (snd (onMessage envA 1 (Some (shotMsg 5 0)) stateWon)) \<noteq> stateWon"
  by code_simp

text \<open>
  Claim C9. After connection 2 has left the started room A1B2C3, connection 1 is the
  only player, at index 0, and the turn is 0. Its next shot passes the tests of
  \<open>started\<close>, of the turn and of the coordinates, and then reads \<^verbatim>\<open>.grid\<close> of the
  missing player at index 1: the handler raises a TypeError instead of rejecting the
  shot.
\<close>

theorem shot_without_opponent_raises:
  "fst (run (setupEvents @ [Closed 2]) []) = Returned \<and>
   map (\<lambda>(rid, r). (rid, map ws (players r), turn r, started r)) stateAlone =
     [(''A1B2C3'', [1], 0, True)] \<and>
   onMessage envA 1 (Some (shotMsg 5 0)) stateAlone = (TypeError, stateAlone, [])"
  by code_simp

section \<open>Rejections\<close>

text \<open>
  Claim C6, as amended. Whenever the handler answers with an error, that error is
  the only message it sends, it goes to the originating connection only, and the store
  is unchanged. Every message the handler returns from without accepting it leaves the
  store unchanged and is answered by exactly one such error, except a message that
  parsed and has no truthy \<^verbatim>\<open>type\<close>, which is answered by nothing.
\<close>

theorem error_response_single_and_harmless:
  assumes "onMessage E c raw rooms = (oc, rooms', out)"
  shows "((\<exists>a e. (a, Error e) \<in> set out) \<longrightarrow>
            oc = Returned \<and> rooms' = rooms \<and> \<not> accepted out \<and> (\<exists>e. out = [(c, Error e)])) \<and>
         (oc = Returned \<and> \<not> accepted out \<longrightarrow>
            rooms' = rooms \<and> (if typeless raw then out = [] else (\<exists>e. out = [(c, Error e)])))"
proof -
  from onMessage_outcomes [OF assms] consider
    (e) "oc = Returned" "rooms' = rooms" "\<not> typeless raw" "\<exists>e. out = [(c, Error e)]"
    | (d) "oc = Returned" "rooms' = rooms" "typeless raw" "out = []"
    | (t) "oc = TypeError" "\<forall>(a, m)\<in>set out. \<forall>e. m \<noteq> Error e"
    | (k) "oc = Returned" "accepted out" "\<forall>(a, m)\<in>set out. \<forall>e. m \<noteq> Error e"
    by blast
  then show ?thesis
  proof cases
    case e
    then show ?thesis using accepted_no_error by auto
  next
    case d
    then show ?thesis by simp
  next
    case t
    then show ?thesis by fastforce
  next
    case k
    then show ?thesis by fastforce
  qed
qed

text \<open>
  An unknown type is answered with one error; a message without a type with
  nothing.
\<close>

theorem error_response_single_and_harmless_witness:
  "onMessage envA 1 (Some (JObj [(''type'', JStr ''dance'')])) stateStarted =
     (Returned, stateStarted, [(1, Error ''Unknown message type'')]) \<and>
   \<not> accepted [(1, Error ''Unknown message type'')] \<and>
   onMessage envA 1 (Some (JObj [])) stateStarted = (Returned, stateStarted, [])"
proof -
  have a: "onMessage envA 1 (Some (JObj [(''type'', JStr ''dance'')])) stateStarted =
     (Returned, stateStarted, [(1, Error ''Unknown message type'')])"
    by (simp add: onMessage_def)
  have b: "onMessage envA 1 (Some (JObj [])) stateStarted = (Returned, stateStarted, [])"
    by (simp add: onMessage_def)
  have "\<not> accepted [(1, Error ''Unknown message type'')]"
    using error_response_single_and_harmless [OF a] by simp
  then show ?thesis using a b by simp
qed

text \<open>
  The claim C6 as stated, that every message that is not accepted is answered with a
  single error, fails for the message \<^verbatim>\<open>{}\<close>: it is not accepted and nothing is sent.
\<close>

theorem rejected_without_error_counterexample:
  "onMessage envA 1 (Some (JObj [])) stateStarted = (Returned, stateStarted, []) \<and>
   \<not> accepted [] \<and>
   \<not> (\<forall>E c raw rooms oc rooms' out.
        onMessage E c raw rooms = (oc, rooms', out) \<and> \<not> accepted out \<longrightarrow>
        rooms' = rooms \<and> (\<exists>e. out = [(c, Error e)]))"
proof -
  have a: "onMessage envA 1 (Some (JObj [])) stateStarted = (Returned, stateStarted, [])"
    by (simp add: onMessage_def)
  have b: "\<not> accepted []" by (simp add: accepted_def)
  have "\<not> (\<forall>E c raw rooms oc rooms' out.
        onMessage E c raw rooms = (oc, rooms', out) \<and> \<not> accepted out \<longrightarrow>
        rooms' = rooms \<and> (\<exists>e. out = [(c, Error e)]))"
  proof
    assume h: "\<forall>E c raw rooms oc rooms' out.
        onMessage E c raw rooms = (oc, rooms', out) \<and> \<not> accepted out \<longrightarrow>
        rooms' = rooms \<and> (\<exists>e. out = [(c, Error e)])"
    from h a b have "\<exists>e. ([] :: sends) = [(1, Error e)]" by blast
    then show False by simp
  qed
  then show ?thesis using a b by blast
qed

text \<open>
  Claim C10. A message that parses as JSON and has no truthy \<^verbatim>\<open>type\<close> should be
  dropped without any response or change of state. The handler does so for every JSON
  value but \<^verbatim>\<open>null\<close> (lemma \<open>typeless_dropped\<close>); for \<^verbatim>\<open>null\<close> the read
  \<^verbatim>\<open>msg.type\<close> raises a TypeError.
\<close>

theorem null_message_raises:
  "onMessage E c (Some JNull) rooms = (TypeError, rooms, [])"
  by (simp add: onMessage_def)

section \<open>Slots, grids and fleets\<close>

text \<open>
  Claim C7. A connection should occupy at most one slot of one room. Neither
  \<^verbatim>\<open>create_room\<close> nor \<^verbatim>\<open>join_room\<close> looks at the room the connection is already in:
  connection 1 creates the room A1B2C3 and joins it, and then holds both of its slots;
  or it creates a second room, and then holds slot 0 of both.
\<close>

theorem connection_in_two_slots:
  "slotsOf 1 (fst (snd (run [Opened 1, Message envA 1 (Some createMsg),
                            Message envA 1 (Some (joinMsg ''A1B2C3''))] []))) =
     [(''A1B2C3'', 0), (''A1B2C3'', 1)] \<and>
   slotsOf 1 (fst (snd (run [Opened 1, Message envA 1 (Some createMsg),
                            Message envB 1 (Some createMsg)] []))) =
     [(''A1B2C3'', 0), (''D4E5F6'', 0)]"
  by code_simp

text \<open>
  What the handlers do keep of a populated slot. A message that is not a
  \<^verbatim>\<open>place_ready\<close> of the slot's own connection (nor a \<^verbatim>\<open>create_room\<close> whose fresh token
  collides with the room's) leaves the slot its connection and its fleet, and its grid
  either stays what it was or is changed by a shot of the opponent holding the turn, at
  exactly the targeted cell, from \<open>Ship\<close> to \<open>Hit\<close> or from \<open>Empty\<close> to \<open>Miss\<close>.
\<close>

lemma other_messages_keep_grid:
  assumes r: "onMessage E c raw rooms = (oc, rooms', out)"
    and d: "distinct (map fst rooms)"
    and s: "map_of rooms rid = Some room" "i < length (players room)" "grid (players room ! i) = Some g"
    and np: "\<forall>msg. raw = Some msg \<and> propOf msg ''type'' = Some (JStr ''place_ready'') \<longrightarrow>
               findRoom c rooms \<noteq> Some (rid, room, i)"
    and nc: "\<forall>msg. raw = Some msg \<and> propOf msg ''type'' = Some (JStr ''create_room'') \<longrightarrow>
               makeRoomId E \<noteq> rid"
  shows "\<exists>room' g'. map_of rooms' rid = Some room' \<and> i < length (players room') \<and>
     ws (players room' ! i) = ws (players room ! i) \<and>
     ships (players room' ! i) = ships (players room ! i) \<and>
     grid (players room' ! i) = Some g' \<and>
     (\<forall>x y. cellStep (cellAt g x y) (cellAt g' x y)) \<and>
     (g' = g \<or>
      (\<exists>msg pIndex x y cell. raw = Some msg \<and> propOf msg ''type'' = Some (JStr ''shot'') \<and>
         findRoom c rooms = Some (rid, room, pIndex) \<and> i = otherIndex pIndex \<and>
         started room \<and> turn room = pIndex \<and> shotCoords msg = Some (x, y) \<and>
         cellAt g x y = Some cell \<and> (cell = Ship \<or> cell = Empty) \<and>
         g' = setCell g x y (if cell = Ship then Hit else Miss)))"
  (is "\<exists>room' g'. ?Q room' g'")
proof -
  have same: "?Q room g"
    if "map_of rooms' rid = Some room" using that s by (simp add: cellStep_def)
  have keep: ?thesis
    if "map_of rooms' rid = Some room1" "i < length (players room1)"
      "players room1 ! i = players room ! i" for room1
  proof -
    have "?Q room1 g" using that s by (simp add: cellStep_def)
    then show ?thesis by blast
  qed
  show ?thesis
  proof (cases raw)
    case None
    then have "rooms' = rooms" using r by (auto simp: onMessage_def)
    then show ?thesis using same s by blast
  next
    case (Some msg)
    show ?thesis
    proof (cases "msg \<noteq> JNull \<and> truthy (propOf msg ''type'')")
      case False
      then have "rooms' = rooms" using r Some by (auto simp: onMessage_def split: if_splits)
      then show ?thesis using same s by blast
    next
      case True
      then have dd: "onMessage E c (Some msg) rooms =
       (if propOf msg ''type'' = Some (JStr ''create_room'') then createRoom E c rooms
        else if propOf msg ''type'' = Some (JStr ''join_room'') then joinRoom E c msg rooms
        else if propOf msg ''type'' = Some (JStr ''place_ready'') then placeReady c msg (findRoom c rooms) rooms
        else if propOf msg ''type'' = Some (JStr ''shot'') then shot c msg (findRoom c rooms) rooms
        else (Returned, rooms, [(c, Error ''Unknown message type'')]))"
        using onMessage_typed by blast
      consider (cr) "propOf msg ''type'' = Some (JStr ''create_room'')" "createRoom E c rooms = (oc, rooms', out)"
        | (jn) "joinRoom E c msg rooms = (oc, rooms', out)"
        | (pl) "propOf msg ''type'' = Some (JStr ''place_ready'')"
               "placeReady c msg (findRoom c rooms) rooms = (oc, rooms', out)"
        | (sh) "propOf msg ''type'' = Some (JStr ''shot'')"
               "shot c msg (findRoom c rooms) rooms = (oc, rooms', out)"
        | (un) "rooms' = rooms"
        using r [unfolded Some dd] by (cases "propOf msg ''type'' = Some (JStr ''create_room'')";
          cases "propOf msg ''type'' = Some (JStr ''join_room'')";
          cases "propOf msg ''type'' = Some (JStr ''place_ready'')";
          cases "propOf msg ''type'' = Some (JStr ''shot'')"; simp)
      then show ?thesis
      proof cases
        case cr
        have "makeRoomId E \<noteq> rid" using nc Some cr(1) by blast
        then have "map_of rooms' rid = Some room"
          using createRoom_out [OF cr(2)] s(1) by (simp add: map_of_roomsSet)
        then show ?thesis using same by blast
      next
        case jn
        from joinRoom_cases [OF jn] consider
          (e) "rooms' = rooms"
          | (ok) r0 where "map_of rooms (roomIdOf E msg) = Some r0"
              "rooms' = roomsSet (roomIdOf E msg) (r0\<lparr>players := players r0 @ [newPlayer E c]\<rparr>) rooms"
          by blast
        then show ?thesis
        proof cases
          case e
          then show ?thesis using same s by blast
        next
          case ok
          show ?thesis
          proof (cases "roomIdOf E msg = rid")
            case True
            then have "r0 = room" using ok(1) s(1) by simp
            then have "map_of rooms' rid = Some (room\<lparr>players := players room @ [newPlayer E c]\<rparr>)"
              using ok(2) True by (simp add: map_of_roomsSet)
            then show ?thesis using s(2)
              by (intro keep [of "room\<lparr>players := players room @ [newPlayer E c]\<rparr>"])
                (simp_all add: nth_append)
          next
            case False
            then have "map_of rooms' rid = Some room" using ok(2) s(1) by (simp add: map_of_roomsSet)
            then show ?thesis using same by blast
          qed
        qed
      next
        case pl
        from placeReady_cases [OF pl(2)] consider
          (e) "rooms' = rooms"
          | (ok) prid proom pIndex g2 ss2 where "findRoom c rooms = Some (prid, proom, pIndex)"
              "rooms' = roomsSet prid (placedRoom proom pIndex g2 ss2) rooms"
          by blast
        then show ?thesis
        proof cases
          case e
          then show ?thesis using same s by blast
        next
          case ok
          show ?thesis
          proof (cases "prid = rid")
            case True
            have "map_of rooms prid = Some proom" using findRoom_map_of [OF d ok(1)] .
            then have pr: "proom = room" using True s(1) by simp
            have "pIndex \<noteq> i" using np Some pl(1) ok(1) True pr by blast
            moreover have "map_of rooms' rid = Some (placedRoom room pIndex g2 ss2)"
              using ok(2) True pr by (simp add: map_of_roomsSet)
            ultimately show ?thesis using s(2)
              by (intro keep [of "placedRoom room pIndex g2 ss2"]) (simp_all add: players_placedRoom)
          next
            case False
            then have "map_of rooms' rid = Some room" using ok(2) s(1) by (simp add: map_of_roomsSet)
            then show ?thesis using same by blast
          qed
        qed
      next
        case sh
        from shot_cases [OF sh(2)] consider
          (e) "rooms' = rooms"
          | (ok) srid sroom pIndex x y g1 cell where
              "findRoom c rooms = Some (srid, sroom, pIndex)" "started sroom" "pIndex = turn sroom"
              "shotCoords msg = Some (x, y)" "otherIndex pIndex < length (players sroom)"
              "grid (players sroom ! otherIndex pIndex) = Some g1" "cellAt g1 x y = Some cell"
              "cell \<noteq> Miss" "cell \<noteq> Hit"
              "(oc, rooms', out) = resolveShot srid sroom pIndex (otherIndex pIndex) g1 cell x y rooms"
          by auto
        then show ?thesis
        proof cases
          case e
          then show ?thesis using same s by blast
        next
          case ok
          have st: "rooms' = roomsSet srid (shotRoom sroom (otherIndex pIndex) g1 cell x y) rooms"
            using resolveShot_store [OF ok(10) [symmetric]] .
          show ?thesis
          proof (cases "srid = rid")
            case False
            then have "map_of rooms' rid = Some room" using st s(1) by (simp add: map_of_roomsSet)
            then show ?thesis using same by blast
          next
            case True
            have "map_of rooms srid = Some sroom" using findRoom_map_of [OF d ok(1)] .
            then have sr: "sroom = room" using True s(1) by simp
            let ?room' = "shotRoom room (otherIndex pIndex) g1 cell x y"
            have m: "map_of rooms' rid = Some ?room'" using st True sr by (simp add: map_of_roomsSet)
            show ?thesis
            proof (cases "otherIndex pIndex = i")
              case False
              then show ?thesis using m s(2)
                by (intro keep [of ?room']) (simp_all add: players_shotRoom)
            next
              case oi: True
              have g1: "g1 = g" using ok(6) sr oi s(3) by simp
              have ce: "cell = Ship \<or> cell = Empty" using ok(8,9) by (cases cell) auto
              have p: "players ?room' ! i = (players room ! i)\<lparr>grid := Some (shotGrid g cell x y)\<rparr>"
                using s(2) oi g1 by (simp add: players_shotRoom)
              have "?Q ?room' (shotGrid g cell x y)"
                using m p s(2) cellStep_shotGrid [OF ok(7) [unfolded g1] ok(8,9)]
                  Some sh(1) ok(1,2,3,4) ok(7) [unfolded g1] sr True oi ce
                by (auto simp: players_shotRoom shotGrid_def)
              then show ?thesis by blast
            qed
          qed
        qed
      next
        case un
        then show ?thesis using same s by blast
      qed
    qed
  qed
qed

text \<open>
  Before the game starts, connection 1 sends a second valid \<^verbatim>\<open>place_ready\<close> and its
  grid is replaced: the case \<^verbatim>\<open>"place_ready"\<close> tests neither \<^verbatim>\<open>ready\<close> nor
  \<^verbatim>\<open>started\<close> before it writes.
\<close>

lemma placement_before_start_replaces_grid:
  "(case map_of stateOnePlaced ''A1B2C3'' of
      None \<Rightarrow> False
    | Some room \<Rightarrow> \<not> started room \<and> grid (players room ! 0) = Some gridA) \<and>
   (case onMessage envA 1 (Some (placeMsg fleetB)) stateOnePlaced of
      (oc, rooms', out) \<Rightarrow>
        oc = Returned \<and> out = [(1, ReadyOk), (1, StatusReady 1), (2, StatusReady 1)] \<and>
        (case map_of rooms' ''A1B2C3'' of
           None \<Rightarrow> False
         | Some room' \<Rightarrow> \<not> started room' \<and> grid (players room' ! 0) = Some gridB)) \<and>
   gridB \<noteq> gridA"
  by code_simp

text \<open>
  Claim C8. Once an accepted \<^verbatim>\<open>place_ready\<close> has populated a slot, no later message
  but a resolved shot should change its grid or fleet, and a cell that is \<open>Hit\<close> or
  \<open>Miss\<close> should keep its value. The case \<^verbatim>\<open>"place_ready"\<close> has no test of
  \<^verbatim>\<open>started\<close>: in the started game on A1B2C3, after connection 1 has hit the cell
  (0,0) of connection 2 (a second shot there is refused with "Already shot there"),
  connection 2 sends \<^verbatim>\<open>place_ready\<close> with another fleet and is answered with
  \<^verbatim>\<open>ready_ok\<close>; its grid and fleet are replaced and the cell (0,0) is \<open>Empty\<close> again.
  When it sends the fleet it had, the cell is a ship again and the shot of connection 1
  at (0,0) is accepted and hits a second time.
\<close>

theorem placement_after_start_replaces_grid:
  "(case map_of stateOneHit ''A1B2C3'' of
      None \<Rightarrow> False
    | Some room \<Rightarrow>
        started room \<and> turn room = 0 \<and> map ws (players room) = [1, 2] \<and>
        grid (players room ! 1) = Some (setCell gridA 0 0 Hit) \<and>
        ships (players room ! 1) = Some fleetPosA) \<and>
   cellAt (setCell gridA 0 0 Hit) 0 0 = Some Hit \<and>
   onMessage envA 1 (Some (shotMsg 0 0)) stateOneHit =
     (Returned, stateOneHit, [(1, Error ''Already shot there'')]) \<and>
   (case onMessage envA 2 (Some (placeMsg fleetB)) stateOneHit of
      (oc, rooms', out) \<Rightarrow>
        oc = Returned \<and> out = [(2, ReadyOk), (1, StatusReady 2), (2, StatusReady 2)] \<and>
        (case map_of rooms' ''A1B2C3'' of
           None \<Rightarrow> False
         | Some room' \<Rightarrow>
             started room' \<and> turn room' = 0 \<and>
             grid (players room' ! 1) = Some gridB \<and>
             ships (players room' ! 1) \<noteq> Some fleetPosA)) \<and>
   cellAt gridB 0 0 = Some Empty \<and>
   (case run [Message envA 2 (Some (placeMsg fleetA)), Message envA 1 (Some (shotMsg 0 0))] stateOneHit of
      (oc, rooms', out) \<Rightarrow>
        oc = Returned \<and>
        out = [(2, ReadyOk), (1, StatusReady 2), (2, StatusReady 2),
               (1, ShotResult 0 0 True False None False), (2, GotShot 0 0 True False None False),
               (1, Turn 1), (2, Turn 1)])"
  by code_simp

end
